theory Spec2Isabelle
  imports Main "HOL-Library.Char_ord" "HOL-Library.List_Lexorder"
begin

section \<open>The AnnotSV-to-VCF converter (variantconvert, \<open>vcf_from_annotsv.py\<close>)\<close>

text \<open>
  The class \<open>VcfFromAnnotsv\<close> turns an AnnotSV table (one row per annotation, tagged
  \<open>full\<close> or \<open>split\<close>) into a VCF file with one data line per variant. The development
  embeds its methods as HOL functions over an explicit model of the pandas data frame the
  code works on, with every \<open>raise\<close> (and every \<open>KeyError\<close> pandas raises on a missing
  column) as a value of \<open>error + 'a\<close>.
\<close>

subsection \<open>Errors, strings\<close>

datatype error =
    ValueError string
  | KeyError string
  | IndexError
  | UnboundLocalError string

definition tab :: string where
  "tab = [CHR 0x09]"

definition newline :: string where
  "newline = [CHR 0x0A]"

text \<open>Python's \<open>sep.join(values)\<close>.\<close>

fun join :: "string \<Rightarrow> string list \<Rightarrow> string" where
  "join sep [] = []"
| "join sep [x] = x"
| "join sep (x # y # ys) = x @ sep @ join sep (y # ys)"

text \<open>Python's \<open>cell.split(",")\<close>: the pieces between the separators, at least one piece.\<close>

fun split_on :: "char \<Rightarrow> string \<Rightarrow> string list" where
  "split_on d [] = [[]]"
| "split_on d (c # cs) =
     (if c = d then [] # split_on d cs
      else (case split_on d cs of [] \<Rightarrow> [[c]] | p # ps \<Rightarrow> (c # p) # ps))"

text \<open>
  A Python \<open>dict\<close> that is iterated later keeps insertion order: an association list,
  where assigning to a present key keeps its place and a new key goes to the end.
\<close>

type_synonym annots = "(string \<times> string) list"

fun dict_set :: "string \<Rightarrow> 'v \<Rightarrow> (string \<times> 'v) list \<Rightarrow> (string \<times> 'v) list" where
  "dict_set k v [] = [(k, v)]"
| "dict_set k v ((k', v') # d) =
     (if k = k' then (k, v) # d else (k', v') # dict_set k v d)"

subsection \<open>Data frames\<close>

text \<open>
  A frame is its column index and its rows. A row carries its index label and its cells;
  the cells are read only at names that the column index holds, every read of another
  name is a \<open>KeyError\<close> written out in the model. After \<open>_build_input_dataframe\<close> every
  cell is a string (\<open>fillna(".")\<close>, \<open>astype(str)\<close>) and the labels are \<open>0, 1, ...\<close>
  (\<open>reset_index\<close>); \<open>read_csv\<close> makes the column names distinct.
\<close>

type_synonym row = "nat \<times> (string \<Rightarrow> string)"

record frame =
  columns :: "string list"
  rows :: "row list"

definition mk_frame :: "string list \<Rightarrow> (string \<Rightarrow> string) list \<Rightarrow> frame" where
  "mk_frame cols rs = \<lparr>columns = cols, rows = zip [0 ..< length rs] rs\<rparr>"

definition cell :: "row \<Rightarrow> string \<Rightarrow> string" where
  "cell r c = snd r c"

text \<open>\<open>df.drop([col], axis=1)\<close>: a new frame without the column, \<open>KeyError\<close> if absent.\<close>

definition drop_col :: "string \<Rightarrow> frame \<Rightarrow> error + frame" where
  "drop_col c df =
     (if c \<in> set (columns df) then Inr (df\<lparr>columns := removeAll c (columns df)\<rparr>)
      else Inl (KeyError c))"

text \<open>\<open>df[col] = v\<close> with a scalar: overwrite the column, or append it as the last one.\<close>

definition set_col :: "string \<Rightarrow> string \<Rightarrow> frame \<Rightarrow> frame" where
  "set_col c v df =
     \<lparr>columns = (if c \<in> set (columns df) then columns df else columns df @ [c]),
      rows = map (\<lambda>r. (fst r, (snd r)(c := v))) (rows df)\<rparr>"

text \<open>\<open>df.loc[:, [c for c in df.columns if keep c]]\<close>.\<close>

definition select_cols :: "(string \<Rightarrow> bool) \<Rightarrow> frame \<Rightarrow> frame" where
  "select_cols keep df = df\<lparr>columns := filter keep (columns df)\<rparr>"

text \<open>\<open>df[col].tolist()\<close>.\<close>

definition col_values :: "frame \<Rightarrow> string \<Rightarrow> string list" where
  "col_values df c = map (\<lambda>r. cell r c) (rows df)"

text \<open>The rows of one group of \<open>df.groupby(col)\<close>, in the order they have in \<open>df\<close>.\<close>

definition group_of :: "string \<Rightarrow> string \<Rightarrow> frame \<Rightarrow> frame" where
  "group_of c k df = df\<lparr>rows := filter (\<lambda>r. cell r c = k) (rows df)\<rparr>"

text \<open>
  \<open>df.groupby(col)\<close>: pandas raises \<open>KeyError\<close> when \<open>col\<close> is not a column; otherwise the
  groups come in sorted key order (Python compares strings by code point, shorter prefix
  first). With \<open>sort=False\<close> they come in order of first appearance.
\<close>

definition groupby :: "string \<Rightarrow> frame \<Rightarrow> error + (string \<times> frame) list" where
  "groupby c df =
     (if c \<in> set (columns df)
      then Inr (map (\<lambda>k. (k, group_of c k df)) (sort (remdups (col_values df c))))
      else Inl (KeyError c))"

definition first_seen :: "'a list \<Rightarrow> 'a list" where
  "first_seen xs = rev (remdups (rev xs))"

definition groupby_unsorted :: "string \<Rightarrow> frame \<Rightarrow> error + (string \<times> frame) list" where
  "groupby_unsorted c df =
     (if c \<in> set (columns df)
      then Inr (map (\<lambda>k. (k, group_of c k df)) (first_seen (col_values df c)))
      else Inl (KeyError c))"

text \<open>\<open>df.loc[label, col]\<close> on a frame whose labels are distinct.\<close>

definition loc :: "frame \<Rightarrow> nat \<Rightarrow> string \<Rightarrow> error + string" where
  "loc df lbl c =
     (case filter (\<lambda>r. fst r = lbl) (rows df) of
        [] \<Rightarrow> Inl (KeyError ''label'')
      | r # _ \<Rightarrow> if c \<in> set (columns df) then Inr (cell r c) else Inl (KeyError c))"

text \<open>\<open>df[cols].iloc[0].to_list()\<close>: the cells of the first row at the given columns.\<close>

definition first_row_values :: "frame \<Rightarrow> string list \<Rightarrow> error + string list" where
  "first_row_values df cs =
     (case filter (\<lambda>c. c \<notin> set (columns df)) cs of
        c # _ \<Rightarrow> Inl (KeyError c)
      | [] \<Rightarrow> (case rows df of [] \<Rightarrow> Inl IndexError | r # _ \<Rightarrow> Inr (map (cell r) cs)))"

subsection \<open>Configuration\<close>

text \<open>
  The JSON configuration, read as the code reads it. A role of \<open>VCF_COLUMNS\<close> holds a
  column name (possibly empty) or a helper-function descriptor
  \<open>["HELPER_FUNCTION", name, arg, ...]\<close>. \<open>vcf_columns\<close> lists the entries of
  \<open>VCF_COLUMNS\<close> in the order of the mapping; the entry under the key \<open>INFO\<close> is the nested
  mapping, whose four roles read by the converter are the fields \<open>info_col\<close>,
  \<open>sv_type_col\<close>, \<open>annotation_mode_col\<close> and \<open>annotsv_id_col\<close>, and \<open>info_helper\<close> tells
  whether one of its values is a helper-function descriptor. \<open>SAMPLE\<close> and \<open>FORMAT\<close> are
  read as column names.
\<close>

datatype colspec = Name string | Func string "string list"

record field_desc =
  ftype :: string
  description :: string

record config =
  mode :: string
  origin :: string
  default_genotype :: string
  vcf_columns :: "(string \<times> colspec) list"
  sample_col :: string
  format_col :: string
  info_col :: string
  sv_type_col :: string
  annotation_mode_col :: string
  annotsv_id_col :: string
  info_helper :: bool
  columns_description :: "string \<Rightarrow> string \<Rightarrow> field_desc option"
  genome_header :: "string list"

subsection \<open>\<open>_merge_full_and_split\<close>\<close>

definition base_vcf_cols :: "string list" where
  "base_vcf_cols = [''ID'', ''REF'', ''ALT'', ''QUAL'', ''FILTER'']"

definition msg_mode :: string where
  "msg_mode = ''Unexpected value in json config[GENERAL][mode]: only full&split mode is implemented yet.''"

definition msg_type :: string where
  "msg_type = ''Annotation type is assumed to be only full or split''"

definition msg_one_full :: string where
  "msg_one_full = ''Each variant is assumed to only have one single line of full annotation''"

definition warn_no_mode :: string where
  "warn_no_mode = ''Input does not include AnnotSV Annotation_mode column. The INFO field will be empty.''"

text \<open>Lines 123-126: every group key must be \<open>full\<close> or \<open>split\<close>; the groups go to \<open>dfs\<close>.\<close>

fun collect_types ::
  "(string \<times> frame) list \<Rightarrow> (string \<rightharpoonup> frame) \<Rightarrow> error + (string \<rightharpoonup> frame)" where
  "collect_types [] dfs = Inr dfs"
| "collect_types ((typemode, df_type) # gs) dfs =
     (if typemode \<noteq> ''full'' \<and> typemode \<noteq> ''split'' then Inl (ValueError msg_type)
      else collect_types gs (dfs(typemode \<mapsto> df_type)))"

text \<open>Lines 136-137: with no full row every field starts as \<open>.\<close>.\<close>

fun seed_dots :: "string list \<Rightarrow> annots \<Rightarrow> annots" where
  "seed_dots [] a = a"
| "seed_dots (ann # anns) a = seed_dots anns (dict_set ann ''.'' a)"

text \<open>
  Lines 144-145: the full row's cells, normalised. The row is addressed by the label of the
  first row of the whole group (\<open>df.index[0]\<close>), looked up in the frame of the full rows.
\<close>

fun seed_full ::
  "(string \<Rightarrow> string) \<Rightarrow> frame \<Rightarrow> nat \<Rightarrow> string list \<Rightarrow> annots \<Rightarrow> error + annots" where
  "seed_full norm full lbl [] a = Inr a"
| "seed_full norm full lbl (ann # anns) a =
     (case loc full lbl ann of
        Inl e \<Rightarrow> Inl e
      | Inr v \<Rightarrow> seed_full norm full lbl anns (dict_set ann (norm v) a))"

text \<open>Lines 151-170: the loop over the columns of the split rows.\<close>

fun merge_split ::
  "config \<Rightarrow> (string \<Rightarrow> string) \<Rightarrow> frame \<Rightarrow> string list \<Rightarrow> annots \<Rightarrow> error + annots" where
  "merge_split cfg norm split [] a = Inr a"
| "merge_split cfg norm split (ann # anns) a =
     (if ann = annotation_mode_col cfg
      then merge_split cfg norm split anns (dict_set ann (mode cfg) a)
      else (case map_of a ann of
              None \<Rightarrow> Inl (KeyError ann)
            | Some v \<Rightarrow>
                merge_split cfg norm split anns
                  (dict_set ann (join ''|'' (v # map norm (col_values split ann))) a)))"

text \<open>
  The method. \<open>norm\<close> is \<open>commons.remove_decimal_or_strip\<close>, which is not part of the
  converter's file. The result pairs the warnings logged with the merged annotation.
\<close>

definition merge_full_and_split ::
  "config \<Rightarrow> (string \<Rightarrow> string) \<Rightarrow> frame \<Rightarrow> error + (string list \<times> annots)" where
  "merge_full_and_split cfg norm df0 =
     (if mode cfg \<noteq> ''full&split'' then Inl (ValueError msg_mode)
      else
        let df = select_cols (\<lambda>c. c \<notin> set base_vcf_cols) df0 in
        case groupby (annotation_mode_col cfg) df of
          Inl e \<Rightarrow> Inl e
        | Inr groups \<Rightarrow>
           (case collect_types groups Map.empty of
              Inl e \<Rightarrow> Inl e
            | Inr dfs \<Rightarrow>
               (case dfs ''full'' of
                  None \<Rightarrow>
                    (case dfs ''split'' of
                       None \<Rightarrow> Inr ([warn_no_mode], [])
                     | Some split \<Rightarrow>
                         (case merge_split cfg norm split (columns split)
                                 (seed_dots (columns split) []) of
                            Inl e \<Rightarrow> Inl e
                          | Inr a \<Rightarrow> Inr ([], a)))
                | Some full \<Rightarrow>
                    if length (rows full) > 1 then Inl (ValueError msg_one_full)
                    else
                      (case rows df of
                         [] \<Rightarrow> Inl IndexError
                       | r0 # _ \<Rightarrow>
                          (case seed_full norm full (fst r0) (columns full) [] of
                             Inl e \<Rightarrow> Inl e
                           | Inr a0 \<Rightarrow>
                              (case dfs ''split'' of
                                 None \<Rightarrow> Inr ([], a0)
                               | Some split \<Rightarrow>
                                   (case merge_split cfg norm split (columns split) a0 of
                                      Inl e \<Rightarrow> Inl e
                                    | Inr a \<Rightarrow> Inr ([], a))))))))"

subsection \<open>\<open>_get_sample_list\<close>\<close>

definition msg_samples :: string where
  "msg_samples = ''When using an AnnotSV file generated from a VCF, all samples are expected to have their own column in the input AnnotSV file''"

text \<open>Lines 54-58: the sample names of one cell of the samples column.\<close>

definition cell_samples :: "string \<Rightarrow> string list" where
  "cell_samples c = (if CHR '','' \<in> set c then split_on (CHR '','') c else [c])"

text \<open>
  \<open>list(set(sample_list))\<close> keeps one copy of each name in an order Python does not
  specify; \<open>remdups\<close> is one such order, and nothing below depends on which.
\<close>

definition get_sample_list :: "config \<Rightarrow> frame \<Rightarrow> error + string list" where
  "get_sample_list cfg input_df =
     (if sample_col cfg \<notin> set (columns input_df) then Inl (KeyError (sample_col cfg))
      else
        let sample_list =
              remdups (concat (map cell_samples (col_values input_df (sample_col cfg))))
        in if format_col cfg = ''FORMAT'' \<and> \<not> set sample_list \<subseteq> set (columns input_df)
           then Inl (ValueError msg_samples)
           else Inr sample_list)"

subsection \<open>\<open>_get_main_vcf_cols\<close>\<close>

definition main_roles :: "string list" where
  "main_roles = [''#CHROM'', ''POS'', ''ID'', ''REF'', ''ALT'', ''QUAL'', ''FILTER'']"

text \<open>
  The loop over the seven roles. A role that is not mapped to a column name gets a column of
  its own name filled with \<open>.\<close> in \<open>self.input_df\<close>; the frame is returned with the names.
\<close>

fun main_vcf_cols_loop ::
  "config \<Rightarrow> string list \<Rightarrow> frame \<Rightarrow> string list \<Rightarrow> error + (frame \<times> string list)" where
  "main_vcf_cols_loop cfg [] input_df cols = Inr (input_df, cols)"
| "main_vcf_cols_loop cfg (col # rest) input_df cols =
     (case map_of (vcf_columns cfg) col of
        None \<Rightarrow> Inl (KeyError col)
      | Some (Func f args) \<Rightarrow>
          main_vcf_cols_loop cfg rest (set_col col ''.'' input_df) (cols @ [col])
      | Some (Name config_col) \<Rightarrow>
          if config_col = []
          then main_vcf_cols_loop cfg rest (set_col col ''.'' input_df) (cols @ [col])
          else main_vcf_cols_loop cfg rest input_df (cols @ [config_col]))"

definition get_main_vcf_cols :: "config \<Rightarrow> frame \<Rightarrow> error + (frame \<times> string list)" where
  "get_main_vcf_cols cfg input_df = main_vcf_cols_loop cfg main_roles input_df []"

subsection \<open>\<open>_build_input_annot_df\<close>\<close>

definition msg_sv_type :: string where
  "msg_sv_type = ''SV_type column is required to turn an AnnotSV file into a VCF. Check if SV_type col is set in config or missing in your file.''"

text \<open>
  Lines 82-86. Every pass drops its column from \<open>self.input_df\<close>, not from the frame of the
  pass before, and a failed drop leaves \<open>df\<close> as it was: \<open>df\<close> ends as the input frame without
  the last column of the list that it has, and stays unbound when it has none of them.
\<close>

fun drop_loop :: "frame \<Rightarrow> string list \<Rightarrow> frame option \<Rightarrow> frame option" where
  "drop_loop input_df [] df = df"
| "drop_loop input_df (col # rest) df =
     drop_loop input_df rest
       (case drop_col col input_df of Inr d \<Rightarrow> Some d | Inl e \<Rightarrow> df)"

text \<open>Line 87, \<open>df.replace(";", ",", regex=True)\<close>: in every cell, every \<open>;\<close> becomes \<open>,\<close>.\<close>

definition replace_semicolon :: "string \<Rightarrow> string" where
  "replace_semicolon s = map (\<lambda>c. if c = CHR '';'' then CHR '','' else c) s"

definition replace_cells :: "frame \<Rightarrow> frame" where
  "replace_cells df =
     df\<lparr>rows := map (\<lambda>r. (fst r, \<lambda>c. replace_semicolon (snd r c))) (rows df)\<rparr>"

definition build_input_annot_df ::
  "config \<Rightarrow> frame \<Rightarrow> string list \<Rightarrow> string list \<Rightarrow> error + frame" where
  "build_input_annot_df cfg input_df sample_list main_vcf_cols =
     (let columns_to_drop =
            sample_list @ main_vcf_cols @ [sample_col cfg, format_col cfg, info_col cfg]
      in case drop_loop input_df columns_to_drop None of
           None \<Rightarrow> Inl (UnboundLocalError ''df'')
         | Some df0 \<Rightarrow>
             let df = replace_cells df0 in
             if sv_type_col cfg = [] \<or> sv_type_col cfg \<notin> set (columns df)
             then Inl (ValueError msg_sv_type)
             else Inr df)"

subsection \<open>\<open>_build_info_dic\<close>\<close>

text \<open>
  The loop over the groups of one variant identifier: each group is merged, its warnings
  join the log and its annotation goes to the dictionary under the identifier.
\<close>

type_synonym info_dic = "(string \<times> annots) list"

fun merge_groups ::
  "config \<Rightarrow> (string \<Rightarrow> string) \<Rightarrow> (string \<times> frame) list \<Rightarrow> string list \<Rightarrow> info_dic
     \<Rightarrow> error + (string list \<times> info_dic)" where
  "merge_groups cfg norm [] log annots_dic = Inr (log, annots_dic)"
| "merge_groups cfg norm ((variant_id, df_variant) # gs) log annots_dic =
     (case merge_full_and_split cfg norm df_variant of
        Inl e \<Rightarrow> Inl e
      | Inr (w, merged_annots) \<Rightarrow>
          merge_groups cfg norm gs (log @ w) (dict_set variant_id merged_annots annots_dic))"

definition build_info_dic ::
  "config \<Rightarrow> (string \<Rightarrow> string) \<Rightarrow> frame \<Rightarrow> string list \<Rightarrow> string list
     \<Rightarrow> error + (string list \<times> info_dic)" where
  "build_info_dic cfg norm input_df sample_list main_vcf_cols =
     (case build_input_annot_df cfg input_df sample_list main_vcf_cols of
        Inl e \<Rightarrow> Inl e
      | Inr input_annot_df \<Rightarrow>
          (case groupby (annotsv_id_col cfg) input_annot_df of
             Inl e \<Rightarrow> Inl e
           | Inr groups \<Rightarrow> merge_groups cfg norm groups [] []))"


subsection \<open>\<open>_create_vcf_header\<close>\<close>

text \<open>
  The static method of the class. The date and the absolute path of the input come from the
  environment and are parameters; \<open>info_keys\<close> is the set of INFO keys in the order in
  which Python iterates it. A role that does not name a column of the frame is a
  \<open>KeyError\<close> where its column is read.
\<close>

definition role_column :: "config \<Rightarrow> frame \<Rightarrow> string \<Rightarrow> error + string list" where
  "role_column cfg df role =
     (case map_of (vcf_columns cfg) role of
        Some (Name c) \<Rightarrow> if c \<in> set (columns df) then Inr (col_values df c) else Inl (KeyError c)
      | _ \<Rightarrow> Inl (KeyError role))"

definition plain_line :: "config \<Rightarrow> string \<Rightarrow> string \<Rightarrow> string" where
  \<open>plain_line cfg section key =
     (case columns_description cfg section key of
        Some info_config \<Rightarrow>
          ''##'' @ section @ ''=<ID='' @ key @ '',Description="'' @ description info_config @ ''">''
      | None \<Rightarrow>
          ''##'' @ section @ ''=<ID='' @ key @ '',Description="Imported from '' @ origin cfg @ ''">'')\<close>

definition typed_line :: "config \<Rightarrow> string \<Rightarrow> string \<Rightarrow> string" where
  \<open>typed_line cfg section key =
     (case columns_description cfg section key of
        Some info_config \<Rightarrow>
          ''##'' @ section @ ''=<ID='' @ key @ '',Number=.,Type='' @ ftype info_config
            @ '',Description="'' @ description info_config @ ''">''
      | None \<Rightarrow>
          ''##'' @ section @ ''=<ID='' @ key
            @ '',Number=.,Type=String,Description="Imported from '' @ origin cfg @ ''">'')\<close>

definition filter_lines :: "config \<Rightarrow> frame \<Rightarrow> string list" where
  \<open>filter_lines cfg df =
     (case map_of (vcf_columns cfg) ''FILTER'' of
        Some (Name c) \<Rightarrow>
          if c \<in> set (columns df)
          then map (\<lambda>f. ''##FILTER=<ID='' @ f @ '',Description=".">'') (remdups (col_values df c))
          else [''##FILTER=<ID=PASS,Description="Passed filter">'']
      | _ \<Rightarrow> [''##FILTER=<ID=PASS,Description="Passed filter">''])\<close>

definition title_line :: "string list \<Rightarrow> string" where
  "title_line sample_list =
     join tab ([''#CHROM'', ''POS'', ''ID'', ''REF'', ''ALT'', ''QUAL'', ''FILTER'', ''INFO'',
                ''FORMAT''] @ sample_list)"

definition create_vcf_header_method ::
  "string \<Rightarrow> string \<Rightarrow> config \<Rightarrow> string list \<Rightarrow> frame \<Rightarrow> string list \<Rightarrow> error + string list" where
  "create_vcf_header_method date abspath cfg sample_list input_df info_keys =
     (let header = [''##fileformat=VCFv4.2'', ''##fileDate='' @ date,
                    ''##source='' @ origin cfg, ''##InputFile='' @ abspath]
                   @ filter_lines cfg input_df
      in case role_column cfg input_df ''REF'' of
           Inl e \<Rightarrow> Inl e
         | Inr refs \<Rightarrow>
            (case role_column cfg input_df ''ALT'' of
               Inl e \<Rightarrow> Inl e
             | Inr alts \<Rightarrow>
                if format_col cfg \<notin> set (columns input_df) then Inl (KeyError (format_col cfg))
                else
                  let formats = remdups (concat (map (split_on (CHR '':''))
                                                   (col_values input_df (format_col cfg))))
                  in Inr (header
                          @ map (plain_line cfg ''REF'') (remdups refs)
                          @ map (plain_line cfg ''ALT'') (remdups alts)
                          @ map (typed_line cfg ''INFO'') info_keys
                          @ map (typed_line cfg ''FORMAT'') formats
                          @ genome_header cfg
                          @ [title_line sample_list])))"

subsection \<open>Natural order (\<open>natsort.index_natsorted\<close>)\<close>

text \<open>
  The library's default key of a string: its maximal runs of decimal digits as numbers and
  the text between them, an empty text put in front when the string starts with a digit, so
  that texts and numbers alternate from a text on. Keys compare as Python tuples do. Texts
  meet only texts and numbers only numbers at equal positions; the order chosen between a
  text and a number is never used on such keys.
\<close>

datatype tok = Txt string | Num nat

definition is_digit :: "char \<Rightarrow> bool" where
  "is_digit c = (c \<in> set ''0123456789'')"

definition int_of_digits :: "string \<Rightarrow> nat" where
  "int_of_digits ds = foldl (\<lambda>n c. 10 * n + (of_char c - 48)) 0 ds"

function natsplit :: "string \<Rightarrow> tok list" where
  "natsplit [] = []"
| "natsplit (c # cs) =
     (if is_digit c
      then Num (int_of_digits (c # takeWhile is_digit cs)) # natsplit (dropWhile is_digit cs)
      else Txt (c # takeWhile (\<lambda>d. \<not> is_digit d) cs)
             # natsplit (dropWhile (\<lambda>d. \<not> is_digit d) cs))"
  by pat_completeness auto
termination
  by (relation "measure length") (auto simp: length_dropWhile_le less_Suc_eq_le)

definition natsort_key :: "string \<Rightarrow> tok list" where
  "natsort_key s = (case natsplit s of Num n # ts \<Rightarrow> Txt [] # Num n # ts | ts \<Rightarrow> ts)"

instantiation tok :: linorder
begin

fun less_eq_tok :: "tok \<Rightarrow> tok \<Rightarrow> bool" where
  "less_eq_tok (Txt a) (Txt b) = (a \<le> b)"
| "less_eq_tok (Num m) (Num n) = (m \<le> n)"
| "less_eq_tok (Num m) (Txt b) = True"
| "less_eq_tok (Txt a) (Num n) = False"

definition less_tok :: "tok \<Rightarrow> tok \<Rightarrow> bool" where
  "less_tok x y = (x \<le> y \<and> \<not> y \<le> (x :: tok))"

instance
proof
  fix x y z :: tok
  show "(x < y) = (x \<le> y \<and> \<not> y \<le> x)" by (simp add: less_tok_def)
  show "x \<le> x" by (cases x) simp_all
  show "x \<le> y \<Longrightarrow> y \<le> z \<Longrightarrow> x \<le> z" by (cases x; cases y; cases z) auto
  show "x \<le> y \<Longrightarrow> y \<le> x \<Longrightarrow> x = y" by (cases x; cases y) auto
  show "x \<le> y \<or> y \<le> x" by (cases x; cases y) auto
qed

end

text \<open>
  \<open>index_natsorted(seq)\<close>: the positions of \<open>seq\<close> in the order of a stable sort by key;
  \<open>df.iloc[positions]\<close>: the rows at these positions.
\<close>

definition index_natsorted :: "string list \<Rightarrow> nat list" where
  "index_natsorted seq = map fst (sort_key (\<lambda>p. natsort_key (snd p)) (enumerate 0 seq))"

definition iloc :: "frame \<Rightarrow> nat list \<Rightarrow> error + frame" where
  "iloc df positions =
     (if \<forall>i \<in> set positions. i < length (rows df)
      then Inr (df\<lparr>rows := map (\<lambda>i. rows df ! i) positions\<rparr>)
      else Inl IndexError)"

subsection \<open>\<open>convert\<close>\<close>

text \<open>
  What \<open>convert\<close> calls and the converter's file does not define:
  \<open>commons.remove_decimal_or_strip\<close>, \<open>commons.create_vcf_header\<close> with the three arguments
  it is given, and the registry of helper functions.
\<close>

record externals =
  remove_decimal_or_strip :: "string \<Rightarrow> string"
  create_vcf_header :: "string \<Rightarrow> config \<Rightarrow> string list \<Rightarrow> error + string list"
  helper_get :: "string \<Rightarrow> (string list \<Rightarrow> string) option"

text \<open>
  The run ends before the output file is opened, while it is written (the text written so
  far stays in the file), or with the whole text written.
\<close>

datatype outcome =
    Failed_before_open error
  | Failed_writing error string
  | Written string

definition msg_info_helper :: string where
  "msg_info_helper = ''HELPER_FUNCTIONS for INFO fields are not implemented yet for AnnotSV converter''"

text \<open>Lines 346-359: the columns of the group that the configuration derives.\<close>

fun derive_cols ::
  "config \<Rightarrow> externals \<Rightarrow> (string \<times> colspec) list \<Rightarrow> frame \<Rightarrow> error + frame" where
  "derive_cols cfg ext [] df_variant = Inr df_variant"
| "derive_cols cfg ext ((config_key, config_val) # rest) df_variant =
     (if config_key = ''INFO''
      then (if info_helper cfg then Inl (ValueError msg_info_helper)
            else derive_cols cfg ext rest df_variant)
      else if config_key = ''FILTER'' \<and> config_val = Name []
      then derive_cols cfg ext rest (set_col config_key ''PASS'' df_variant)
      else (case config_val of
              Name c \<Rightarrow> derive_cols cfg ext rest df_variant
            | Func name args \<Rightarrow>
               (case helper_get ext name of
                  None \<Rightarrow> Inl (KeyError name)
                | Some func \<Rightarrow>
                   (case first_row_values df_variant args of
                      Inl e \<Rightarrow> Inl e
                    | Inr vs \<Rightarrow>
                        derive_cols cfg ext rest (set_col config_key (func vs) df_variant)))))"

text \<open>Line 363: the INFO field of one variant.\<close>

definition info_field :: "annots \<Rightarrow> string" where
  "info_field a = join '';'' (map (\<lambda>(k, v). k @ ''='' @ v) a)"

text \<open>Lines 365-372.\<close>

definition sample_cols :: "config \<Rightarrow> string list \<Rightarrow> frame \<Rightarrow> error + string" where
  "sample_cols cfg sample_list df_variant =
     (if format_col cfg \<noteq> []
      then (case first_row_values df_variant (format_col cfg # sample_list) of
              Inl e \<Rightarrow> Inl e
            | Inr vs \<Rightarrow> Inr (join tab vs))
      else Inr (''GT'' @ tab @ default_genotype cfg))"

text \<open>
  One pass of the loop over the groups: the text it writes, and the error that ends it if
  there is one.
\<close>

definition emit_group ::
  "config \<Rightarrow> externals \<Rightarrow> string list \<Rightarrow> string list \<Rightarrow> info_dic \<Rightarrow> string \<times> frame
     \<Rightarrow> string \<times> error option" where
  "emit_group cfg ext main_vcf_cols sample_list info_dic g =
     (case derive_cols cfg ext (vcf_columns cfg) (snd g) of
        Inl e \<Rightarrow> ([], Some e)
      | Inr df_variant \<Rightarrow>
         (case first_row_values df_variant main_vcf_cols of
            Inl e \<Rightarrow> ([], Some e)
          | Inr vals \<Rightarrow>
             let w1 = join tab vals @ tab in
             (case map_of info_dic (fst g) of
                None \<Rightarrow> (w1, Some (KeyError (fst g)))
              | Some a \<Rightarrow>
                 let w2 = w1 @ info_field a @ tab in
                 (case sample_cols cfg sample_list df_variant of
                    Inl e \<Rightarrow> (w2, Some e)
                  | Inr s \<Rightarrow> (w2 @ s @ newline, None)))))"

fun emit_loop ::
  "config \<Rightarrow> externals \<Rightarrow> string list \<Rightarrow> string list \<Rightarrow> info_dic \<Rightarrow> (string \<times> frame) list
     \<Rightarrow> string \<Rightarrow> outcome" where
  "emit_loop cfg ext main_vcf_cols sample_list info_dic [] vcf = Written vcf"
| "emit_loop cfg ext main_vcf_cols sample_list info_dic (g # gs) vcf =
     (case emit_group cfg ext main_vcf_cols sample_list info_dic g of
        (w, Some e) \<Rightarrow> Failed_writing e (vcf @ w)
      | (w, None) \<Rightarrow> emit_loop cfg ext main_vcf_cols sample_list info_dic gs (vcf @ w))"

text \<open>Lines 339-341: the rows in natural order of the chromosome column.\<close>

definition natsorted_frame :: "config \<Rightarrow> frame \<Rightarrow> error + frame" where
  "natsorted_frame cfg df =
     (case map_of (vcf_columns cfg) ''#CHROM'' of
        Some (Name c) \<Rightarrow>
          if c \<in> set (columns df) then iloc df (index_natsorted (col_values df c))
          else Inl (KeyError c)
      | _ \<Rightarrow> Inl (KeyError ''#CHROM''))"

text \<open>The groups in the order in which the loop of line 343 visits them.\<close>

definition emission_groups :: "config \<Rightarrow> frame \<Rightarrow> error + (string \<times> frame) list" where
  "emission_groups cfg input_df =
     (case natsorted_frame cfg input_df of
        Inl e \<Rightarrow> Inl e
      | Inr sorted_df \<Rightarrow> groupby_unsorted (annotsv_id_col cfg) sorted_df)"

text \<open>
  The steps of \<open>convert\<close> before the file is opened: the sample list, the main columns (which
  add their placeholder columns to the table) and the dictionary of merged annotations.
\<close>

definition prepare ::
  "externals \<Rightarrow> config \<Rightarrow> frame
     \<Rightarrow> error + (string list \<times> frame \<times> string list \<times> info_dic)" where
  "prepare ext cfg loaded =
     (case get_sample_list cfg loaded of
        Inl e \<Rightarrow> Inl e
      | Inr sample_list \<Rightarrow>
         (case get_main_vcf_cols cfg loaded of
            Inl e \<Rightarrow> Inl e
          | Inr (input_df, main_vcf_cols) \<Rightarrow>
             (case build_info_dic cfg (remove_decimal_or_strip ext) input_df sample_list
                     main_vcf_cols of
                Inl e \<Rightarrow> Inl e
              | Inr (log, info_dic) \<Rightarrow> Inr (sample_list, input_df, main_vcf_cols, info_dic))))"

text \<open>
  \<open>convert\<close>, from the table that \<open>_build_input_dataframe\<close> loaded. The set \<open>info_keys\<close> of
  lines 327-330 is computed and not used again: the header written is the one
  \<open>commons.create_vcf_header\<close> returns for the path, the configuration and the samples.
\<close>

definition convert :: "externals \<Rightarrow> config \<Rightarrow> string \<Rightarrow> frame \<Rightarrow> outcome" where
  "convert ext cfg tsv loaded =
     (case prepare ext cfg loaded of
        Inl e \<Rightarrow> Failed_before_open e
      | Inr (sample_list, input_df, main_vcf_cols, info_dic) \<Rightarrow>
         (case create_vcf_header ext tsv cfg sample_list of
            Inl e \<Rightarrow> Failed_writing e []
          | Inr vcf_header \<Rightarrow>
             let vcf = concat (map (\<lambda>l. l @ newline) vcf_header) in
             (case emission_groups cfg input_df of
                Inl e \<Rightarrow> Failed_writing e vcf
              | Inr groups \<Rightarrow>
                  emit_loop cfg ext main_vcf_cols sample_list info_dic groups vcf)))"

section \<open>Notions used in the statements\<close>

text \<open>The rows of a group that carry a given tag in the discriminator column.\<close>

definition tagged :: "config \<Rightarrow> string \<Rightarrow> frame \<Rightarrow> row list" where
  "tagged cfg t df = filter (\<lambda>r. cell r (annotation_mode_col cfg) = t) (rows df)"

text \<open>
  The main roles that \<open>_get_main_vcf_cols\<close> gives a placeholder column of their own name:
  those mapped to the empty name or to a helper function.
\<close>

definition unmapped :: "config \<Rightarrow> string \<Rightarrow> bool" where
  "unmapped cfg role =
     (case map_of (vcf_columns cfg) role of
        Some (Name c) \<Rightarrow> c = []
      | Some (Func f args) \<Rightarrow> True
      | None \<Rightarrow> False)"

definition placeholder_cols :: "config \<Rightarrow> string list" where
  "placeholder_cols cfg = filter (unmapped cfg) main_roles"

text \<open>The dictionary of merged annotations that \<open>convert\<close> holds when it opens the output.\<close>

definition merged_annotations :: "externals \<Rightarrow> config \<Rightarrow> frame \<Rightarrow> error + info_dic" where
  "merged_annotations ext cfg loaded =
     (case prepare ext cfg loaded of
        Inl e \<Rightarrow> Inl e
      | Inr (sample_list, input_df, main_vcf_cols, info_dic) \<Rightarrow> Inr info_dic)"

text \<open>A string without the separator of the INFO field.\<close>

definition no_semicolon :: "string \<Rightarrow> bool" where
  "no_semicolon s = (CHR '';'' \<notin> set s)"

text \<open>
  The data line of one group, as the fields it is made of: the cells of the main columns in
  the first row of the group (after the columns that the configuration derives are set),
  the INFO field of the group's merged annotation, then the cells of the FORMAT column and of
  the sample columns in that row, or \<open>GT\<close> and the default genotype; all joined by tabs.
\<close>

definition data_line ::
  "config \<Rightarrow> externals \<Rightarrow> string list \<Rightarrow> string list \<Rightarrow> info_dic \<Rightarrow> string \<times> frame
     \<Rightarrow> error + string" where
  "data_line cfg ext main_vcf_cols sample_list info_dic g =
     (case derive_cols cfg ext (vcf_columns cfg) (snd g) of
        Inl e \<Rightarrow> Inl e
      | Inr df_variant \<Rightarrow>
         (case rows df_variant of
            [] \<Rightarrow> Inl IndexError
          | r # _ \<Rightarrow>
             (case map_of info_dic (fst g) of
                None \<Rightarrow> Inl (KeyError (fst g))
              | Some a \<Rightarrow>
                  Inr (join tab (map (cell r) main_vcf_cols @ [info_field a]
                         @ (if format_col cfg \<noteq> []
                            then map (cell r) (format_col cfg # sample_list)
                            else [''GT'', default_genotype cfg]))))))"

text \<open>
  The table that the emission reads: the loaded table with the placeholder columns of
  \<open>_get_main_vcf_cols\<close>.
\<close>

definition input_table :: "config \<Rightarrow> frame \<Rightarrow> frame" where
  "input_table cfg loaded =
     (case get_main_vcf_cols cfg loaded of
        Inr (input_df, main_vcf_cols) \<Rightarrow> input_df
      | Inl e \<Rightarrow> loaded)"

section \<open>Example data\<close>

text \<open>A row given by its cells; a column it does not list reads as the placeholder.\<close>

definition row_of :: "(string \<times> string) list \<Rightarrow> string \<Rightarrow> string" where
  "row_of kvs c = (case map_of kvs c of Some v \<Rightarrow> v | None \<Rightarrow> ''.'')"

text \<open>
  A configuration for a table that AnnotSV made from a BED file: no FORMAT column, and only
  the chromosome and position roles are mapped.
\<close>

definition ex_cfg :: config where
  "ex_cfg = \<lparr>mode = ''full&split'', origin = ''AnnotSV'', default_genotype = ''0/1'',
     vcf_columns = [(''#CHROM'', Name ''SV_chrom''), (''POS'', Name ''SV_start''),
        (''ID'', Name []), (''REF'', Name []), (''ALT'', Name []), (''QUAL'', Name []),
        (''FILTER'', Name []), (''INFO'', Name [])],
     sample_col = ''Samples_ID'', format_col = [], info_col = ''INFO'',
     sv_type_col = ''SV_type'', annotation_mode_col = ''Annotation_mode'',
     annotsv_id_col = ''AnnotSV_ID'', info_helper = False,
     columns_description = (\<lambda>s k. None), genome_header = []\<rparr>"

definition ex_ext :: externals where
  "ex_ext = \<lparr>remove_decimal_or_strip = (\<lambda>s. s),
     create_vcf_header = (\<lambda>tsv cfg samples. Inr [''##fileformat=VCFv4.2'', title_line samples]),
     helper_get = (\<lambda>n. None)\<rparr>"

text \<open>One variant with a full row and two split rows that repeat the full row's gene.\<close>

definition ex_group :: frame where
  "ex_group = mk_frame [''AnnotSV_ID'', ''Annotation_mode'', ''Gene'', ''FILTER'']
     [row_of [(''AnnotSV_ID'', ''V1''), (''Annotation_mode'', ''full''), (''Gene'', ''BRCA1''),
              (''FILTER'', ''PASS'')],
      row_of [(''AnnotSV_ID'', ''V1''), (''Annotation_mode'', ''split''), (''Gene'', ''BRCA1''),
              (''FILTER'', ''PASS'')],
      row_of [(''AnnotSV_ID'', ''V1''), (''Annotation_mode'', ''split''), (''Gene'', ''BRCA1''),
              (''FILTER'', ''PASS'')]]"

definition ex_merged :: annots where
  "ex_merged = [(''AnnotSV_ID'', ''V1|V1|V1''), (''Annotation_mode'', ''full&split''),
                (''Gene'', ''BRCA1|BRCA1|BRCA1'')]"

text \<open>The same variant with two rows tagged full.\<close>

definition ex_two_full :: frame where
  "ex_two_full = mk_frame [''AnnotSV_ID'', ''Annotation_mode'', ''Gene'']
     [row_of [(''AnnotSV_ID'', ''V1''), (''Annotation_mode'', ''full''), (''Gene'', ''BRCA1'')],
      row_of [(''AnnotSV_ID'', ''V1''), (''Annotation_mode'', ''full''), (''Gene'', ''BRCA2'')]]"

text \<open>A variant of a table that has no discriminator column.\<close>

definition ex_no_mode :: frame where
  "ex_no_mode = mk_frame [''AnnotSV_ID'', ''Gene'']
     [row_of [(''AnnotSV_ID'', ''V1''), (''Gene'', ''BRCA1'')]]"

text \<open>A table of two variants, the first on \<open>chr10\<close> and the second on \<open>chr2\<close>.\<close>

definition ex_table :: frame where
  "ex_table = mk_frame [''AnnotSV_ID'', ''SV_chrom'', ''SV_start'', ''SV_type'', ''Samples_ID'',
                        ''Annotation_mode'', ''Gene'']
     [row_of [(''AnnotSV_ID'', ''V1''), (''SV_chrom'', ''chr10''), (''SV_start'', ''100''),
              (''SV_type'', ''DEL''), (''Samples_ID'', ''S1''), (''Annotation_mode'', ''full''),
              (''Gene'', ''BRCA1'')],
      row_of [(''AnnotSV_ID'', ''V1''), (''SV_chrom'', ''chr10''), (''SV_start'', ''100''),
              (''SV_type'', ''DEL''), (''Samples_ID'', ''S1''), (''Annotation_mode'', ''split''),
              (''Gene'', ''BRCA1'')],
      row_of [(''AnnotSV_ID'', ''V2''), (''SV_chrom'', ''chr2''), (''SV_start'', ''500''),
              (''SV_type'', ''DUP''), (''Samples_ID'', ''S1''), (''Annotation_mode'', ''full''),
              (''Gene'', ''TP53'')]]"

text \<open>A table without the discriminator column.\<close>

definition ex_table_no_mode :: frame where
  "ex_table_no_mode = mk_frame [''AnnotSV_ID'', ''SV_chrom'', ''SV_start'', ''SV_type'',
                                ''Samples_ID'', ''Gene'']
     [row_of [(''AnnotSV_ID'', ''V1''), (''SV_chrom'', ''chr1''), (''SV_start'', ''100''),
              (''SV_type'', ''DEL''), (''Samples_ID'', ''S1''), (''Gene'', ''BRCA1'')]]"

text \<open>
  Tables made from a VCF that declare the sample \<open>S1\<close> and have no column \<open>S1\<close>: one with
  its FORMAT data in a column named \<open>FORMAT\<close>, one with the column named \<open>FMT\<close>, each with
  the configuration that maps the FORMAT role to it.
\<close>

definition ex_table_FORMAT :: frame where
  "ex_table_FORMAT = mk_frame [''AnnotSV_ID'', ''SV_chrom'', ''SV_start'', ''SV_type'',
                               ''Samples_ID'', ''Annotation_mode'', ''FORMAT'']
     [row_of [(''AnnotSV_ID'', ''V1''), (''SV_chrom'', ''chr1''), (''SV_start'', ''100''),
              (''SV_type'', ''DEL''), (''Samples_ID'', ''S1''), (''Annotation_mode'', ''full''),
              (''FORMAT'', ''GT'')]]"

definition ex_table_FMT :: frame where
  "ex_table_FMT = mk_frame [''AnnotSV_ID'', ''SV_chrom'', ''SV_start'', ''SV_type'',
                            ''Samples_ID'', ''Annotation_mode'', ''FMT'']
     [row_of [(''AnnotSV_ID'', ''V1''), (''SV_chrom'', ''chr1''), (''SV_start'', ''100''),
              (''SV_type'', ''DEL''), (''Samples_ID'', ''S1''), (''Annotation_mode'', ''full''),
              (''FMT'', ''GT'')]]"

definition ex_cfg_FORMAT :: config where
  "ex_cfg_FORMAT = ex_cfg\<lparr>format_col := ''FORMAT''\<rparr>"

definition ex_cfg_FMT :: config where
  "ex_cfg_FMT = ex_cfg\<lparr>format_col := ''FMT''\<rparr>"



text \<open>The text that the conversion of the example table writes.\<close>

definition ex_output :: string where
  "ex_output = concat (map (\<lambda>l. l @ newline)
     [''##fileformat=VCFv4.2'',
      join tab [''#CHROM'', ''POS'', ''ID'', ''REF'', ''ALT'', ''QUAL'', ''FILTER'', ''INFO'',
                ''FORMAT'', ''S1''],
      join tab [''chr2'', ''500'', ''.'', ''.'', ''.'', ''.'', ''PASS'',
                ''AnnotSV_ID=V2;SV_chrom=chr2;SV_start=500;SV_type=DUP;Annotation_mode=full;Gene=TP53'',
                ''GT'', ''0/1''],
      join tab [''chr10'', ''100'', ''.'', ''.'', ''.'', ''.'', ''PASS'',
                ''AnnotSV_ID=V1|V1;SV_chrom=chr10|chr10;SV_start=100|100;SV_type=DEL|DEL;Annotation_mode=full&split;Gene=BRCA1|BRCA1'',
                ''GT'', ''0/1'']])"

text \<open>
  A table made from a VCF, with the raw INFO column, the FORMAT column and the column of its
  sample \<open>S1\<close>.
\<close>

definition ex_table_vcf :: frame where
  "ex_table_vcf = mk_frame [''AnnotSV_ID'', ''SV_chrom'', ''SV_start'', ''SV_type'',
                            ''Samples_ID'', ''Annotation_mode'', ''INFO'', ''FORMAT'', ''S1'',
                            ''Gene'']
     [row_of [(''AnnotSV_ID'', ''V1''), (''SV_chrom'', ''chr1''), (''SV_start'', ''100''),
              (''SV_type'', ''DEL''), (''Samples_ID'', ''S1''), (''Annotation_mode'', ''full''),
              (''INFO'', ''END=200''), (''FORMAT'', ''GT''), (''S1'', ''0/1''),
              (''Gene'', ''BRCA1'')]]"

text \<open>A table with a semicolon in a cell, and one with a semicolon in a column name.\<close>

definition ex_table_cell_semicolon :: frame where
  "ex_table_cell_semicolon = mk_frame [''AnnotSV_ID'', ''SV_chrom'', ''SV_start'', ''SV_type'',
                                       ''Samples_ID'', ''Annotation_mode'', ''Gene'']
     [row_of [(''AnnotSV_ID'', ''V1''), (''SV_chrom'', ''chr1''), (''SV_start'', ''100''),
              (''SV_type'', ''DEL''), (''Samples_ID'', ''S1''), (''Annotation_mode'', ''full''),
              (''Gene'', ''BRCA1;BRCA2'')]]"

definition ex_annots_cell_semicolon :: annots where
  "ex_annots_cell_semicolon =
     [(''AnnotSV_ID'', ''V1''), (''SV_chrom'', ''chr1''), (''SV_start'', ''100''),
      (''SV_type'', ''DEL''), (''Annotation_mode'', ''full''), (''Gene'', ''BRCA1,BRCA2'')]"

definition ex_table_col_semicolon :: frame where
  "ex_table_col_semicolon = mk_frame [''AnnotSV_ID'', ''SV_chrom'', ''SV_start'', ''SV_type'',
                                      ''Samples_ID'', ''Annotation_mode'', ''Gene;name'']
     [row_of [(''AnnotSV_ID'', ''V1''), (''SV_chrom'', ''chr1''), (''SV_start'', ''100''),
              (''SV_type'', ''DEL''), (''Samples_ID'', ''S1''), (''Annotation_mode'', ''full''),
              (''Gene;name'', ''BRCA1'')]]"

definition ex_annots_col_semicolon :: annots where
  "ex_annots_col_semicolon =
     [(''AnnotSV_ID'', ''V1''), (''SV_chrom'', ''chr1''), (''SV_start'', ''100''),
      (''SV_type'', ''DEL''), (''Annotation_mode'', ''full''), (''Gene;name'', ''BRCA1'')]"


text \<open>
  The variant of \<open>ex_group\<close> with a split row listed before its full row, a table with the
  same two rows, and a variant that has split rows only.
\<close>

definition ex_group_split_first :: frame where
  "ex_group_split_first = mk_frame [''AnnotSV_ID'', ''Annotation_mode'', ''Gene'']
     [row_of [(''AnnotSV_ID'', ''V1''), (''Annotation_mode'', ''split''), (''Gene'', ''BRCA1_tx2'')],
      row_of [(''AnnotSV_ID'', ''V1''), (''Annotation_mode'', ''full''), (''Gene'', ''BRCA1'')]]"

definition ex_table_split_first :: frame where
  "ex_table_split_first = mk_frame [''AnnotSV_ID'', ''SV_chrom'', ''SV_start'', ''SV_type'',
                                    ''Samples_ID'', ''Annotation_mode'', ''Gene'']
     [row_of [(''AnnotSV_ID'', ''V1''), (''SV_chrom'', ''chr1''), (''SV_start'', ''100''),
              (''SV_type'', ''DEL''), (''Samples_ID'', ''S1''), (''Annotation_mode'', ''split''),
              (''Gene'', ''BRCA1_tx2'')],
      row_of [(''AnnotSV_ID'', ''V1''), (''SV_chrom'', ''chr1''), (''SV_start'', ''100''),
              (''SV_type'', ''DEL''), (''Samples_ID'', ''S1''), (''Annotation_mode'', ''full''),
              (''Gene'', ''BRCA1'')]]"

definition ex_group_no_full :: frame where
  "ex_group_no_full = mk_frame [''AnnotSV_ID'', ''Annotation_mode'', ''Gene'']
     [row_of [(''AnnotSV_ID'', ''V1''), (''Annotation_mode'', ''split''), (''Gene'', ''A'')],
      row_of [(''AnnotSV_ID'', ''V1''), (''Annotation_mode'', ''split''), (''Gene'', ''B'')]]"

section \<open>Properties\<close>

subsection \<open>Dictionaries and the loops of the merge\<close>

lemma map_of_dict_set: "map_of (dict_set k v d) = (map_of d)(k \<mapsto> v)"
  by (induction d) auto

lemma collect_types_map:
  "collect_types (map (\<lambda>k. (k, g k)) ks) dfs = Inr dfs' \<Longrightarrow>
     (\<forall>k \<in> set ks. k = ''full'' \<or> k = ''split'') \<and>
     (\<forall>k. dfs' k = (if k \<in> set ks then Some (g k) else dfs k))"
proof (induction ks arbitrary: dfs)
  case Nil
  then show ?case by simp
next
  case (Cons k ks)
  from Cons.prems have ok: "k = ''full'' \<or> k = ''split''"
    by (auto split: if_splits)
  with Cons.prems have "collect_types (map (\<lambda>k. (k, g k)) ks) (dfs(k \<mapsto> g k)) = Inr dfs'"
    by (auto split: if_splits)
  from Cons.IH [OF this] ok show ?case by auto
qed

lemma map_of_seed_dots:
  "map_of (seed_dots anns a) k = (if k \<in> set anns then Some ''.'' else map_of a k)"
  by (induction anns arbitrary: a) (auto simp: map_of_dict_set)

lemma seed_full_other:
  "seed_full norm full lbl anns a = Inr a' \<Longrightarrow> k \<notin> set anns \<Longrightarrow> map_of a' k = map_of a k"
  by (induction anns arbitrary: a) (auto simp: map_of_dict_set split: sum.splits)

lemma seed_full_hit:
  "seed_full norm full lbl anns a = Inr a' \<Longrightarrow> k \<in> set anns \<Longrightarrow>
     \<exists>v. loc full lbl k = Inr v \<and> map_of a' k = Some (norm v)"
proof (induction anns arbitrary: a)
  case Nil
  then show ?case by simp
next
  case (Cons ann anns)
  from Cons.prems(1) obtain v where v: "loc full lbl ann = Inr v"
    and rest: "seed_full norm full lbl anns (dict_set ann (norm v) a) = Inr a'"
    by (auto split: sum.splits)
  show ?case
  proof (cases "k \<in> set anns")
    case True
    from Cons.IH [OF rest True] show ?thesis .
  next
    case False
    with Cons.prems(2) have "k = ann" by simp
    with seed_full_other [OF rest False] v show ?thesis
      by (simp add: map_of_dict_set)
  qed
qed

lemma merge_split_other:
  "merge_split cfg norm split anns a = Inr a' \<Longrightarrow> k \<notin> set anns \<Longrightarrow> map_of a' k = map_of a k"
  by (induction anns arbitrary: a) (auto simp: map_of_dict_set split: option.splits if_splits)

lemma merge_split_hit:
  "merge_split cfg norm split anns a = Inr a' \<Longrightarrow> distinct anns \<Longrightarrow> k \<in> set anns \<Longrightarrow>
     (if k = annotation_mode_col cfg then map_of a' k = Some (mode cfg)
      else \<exists>v. map_of a k = Some v \<and>
             map_of a' k = Some (join ''|'' (v # map norm (col_values split k))))"
proof (induction anns arbitrary: a)
  case Nil
  then show ?case by simp
next
  case (Cons ann anns)
  show ?case
  proof (cases "k = ann")
    case True
    with Cons.prems(2) have nin: "k \<notin> set anns" by simp
    show ?thesis
    proof (cases "ann = annotation_mode_col cfg")
      case True
      with Cons.prems(1) have "merge_split cfg norm split anns (dict_set ann (mode cfg) a) = Inr a'"
        by simp
      from merge_split_other [OF this nin] \<open>k = ann\<close> True show ?thesis
        by (simp add: map_of_dict_set)
    next
      case False
      with Cons.prems(1) obtain v where v: "map_of a ann = Some v"
        and rest: "merge_split cfg norm split anns
                     (dict_set ann (join ''|'' (v # map norm (col_values split ann))) a) = Inr a'"
        by (auto split: option.splits)
      from merge_split_other [OF rest nin] \<open>k = ann\<close> False v show ?thesis
        by (simp add: map_of_dict_set)
    qed
  next
    case False
    with Cons.prems have kin: "k \<in> set anns" and d: "distinct anns" by auto
    show ?thesis
    proof (cases "ann = annotation_mode_col cfg")
      case True
      with Cons.prems(1) have "merge_split cfg norm split anns (dict_set ann (mode cfg) a) = Inr a'"
        by simp
      from Cons.IH [OF this d kin] False show ?thesis
        by (auto simp: map_of_dict_set)
    next
      case F2: False
      with Cons.prems(1) obtain v where v: "map_of a ann = Some v"
        and rest: "merge_split cfg norm split anns
                     (dict_set ann (join ''|'' (v # map norm (col_values split ann))) a) = Inr a'"
        by (auto split: option.splits)
      from Cons.IH [OF rest d kin] False show ?thesis
        by (auto simp: map_of_dict_set)
    qed
  qed
qed

subsection \<open>The merge of one group\<close>

lemma group_present:
  "k \<in> set (col_values df c) \<longleftrightarrow> filter (\<lambda>r. cell r c = k) (rows df) \<noteq> []"
  by (auto simp: col_values_def filter_empty_conv)

text \<open>What a successful merge went through.\<close>

lemma merge_success:
  assumes ok: "merge_full_and_split cfg norm df0 = Inr (w, a)"
  defines "cols \<equiv> filter (\<lambda>c. c \<notin> set base_vcf_cols) (columns df0)"
  defines "split \<equiv> group_of (annotation_mode_col cfg) ''split'' (select_cols (\<lambda>c. c \<notin> set base_vcf_cols) df0)"
  defines "full \<equiv> group_of (annotation_mode_col cfg) ''full'' (select_cols (\<lambda>c. c \<notin> set base_vcf_cols) df0)"
  shows "mode cfg = ''full&split''"
    and "annotation_mode_col cfg \<in> set cols"
    and "tagged cfg ''full'' df0 = [] \<Longrightarrow> tagged cfg ''split'' df0 \<noteq> [] \<Longrightarrow>
           merge_split cfg norm split cols (seed_dots cols []) = Inr a"
    and "tagged cfg ''full'' df0 \<noteq> [] \<Longrightarrow> tagged cfg ''split'' df0 \<noteq> [] \<Longrightarrow>
           \<exists>rf lbl a0. tagged cfg ''full'' df0 = [rf] \<and> seed_full norm full lbl cols [] = Inr a0
              \<and> merge_split cfg norm split cols a0 = Inr a"
proof -
  let ?df = "select_cols (\<lambda>c. c \<notin> set base_vcf_cols) df0"
  let ?c = "annotation_mode_col cfg"
  let ?keys = "sort (remdups (col_values ?df ?c))"
  from ok show m: "mode cfg = ''full&split''"
    by (auto simp: merge_full_and_split_def split: if_splits)
  from ok m obtain groups where g: "groupby ?c ?df = Inr groups"
    by (auto simp: merge_full_and_split_def Let_def split: sum.splits)
  then show cin: "?c \<in> set cols"
    by (auto simp: groupby_def cols_def select_cols_def split: if_splits)
  from g have groups: "groups = map (\<lambda>k. (k, group_of ?c k ?df)) ?keys"
    by (auto simp: groupby_def split: if_splits)
  from ok m g obtain dfs where ct: "collect_types groups Map.empty = Inr dfs"
    by (auto simp: merge_full_and_split_def Let_def split: sum.splits)
  from collect_types_map [OF ct [unfolded groups]]
  have dfs: "\<And>k. dfs k = (if k \<in> set (col_values ?df ?c) then Some (group_of ?c k ?df) else None)"
    by simp
  have present: "\<And>k. k \<in> set (col_values ?df ?c) \<longleftrightarrow> tagged cfg k df0 \<noteq> []"
    unfolding group_present by (simp add: tagged_def select_cols_def)
  have colsS: "columns split = cols" and colsF: "columns full = cols"
    by (simp_all add: split_def full_def group_of_def select_cols_def cols_def)
  have rowsF: "rows full = tagged cfg ''full'' df0"
    by (simp add: full_def group_of_def select_cols_def tagged_def)
  {
    assume F: "tagged cfg ''full'' df0 = []" and S: "tagged cfg ''split'' df0 \<noteq> []"
    from F S have "dfs ''full'' = None" "dfs ''split'' = Some split"
      by (simp_all add: dfs present split_def)
    with ok m g ct show "merge_split cfg norm split cols (seed_dots cols []) = Inr a"
      by (auto simp: merge_full_and_split_def Let_def colsS split: sum.splits)
  }
  {
    assume F: "tagged cfg ''full'' df0 \<noteq> []" and S: "tagged cfg ''split'' df0 \<noteq> []"
    from F S have d: "dfs ''full'' = Some full" "dfs ''split'' = Some split"
      by (simp_all add: dfs present split_def full_def)
    from ok m g ct d have len: "\<not> length (rows full) > 1"
      by (auto simp: merge_full_and_split_def Let_def split: if_splits)
    with F rowsF obtain rf where rf: "tagged cfg ''full'' df0 = [rf]"
      by (cases "tagged cfg ''full'' df0") auto
    from ok m g ct d len obtain lbl a0 where
      "seed_full norm full lbl cols [] = Inr a0" "merge_split cfg norm split cols a0 = Inr a"
      by (auto simp: merge_full_and_split_def Let_def colsS colsF split: sum.splits list.splits)
    with rf show "\<exists>rf lbl a0. tagged cfg ''full'' df0 = [rf] \<and> seed_full norm full lbl cols [] = Inr a0
              \<and> merge_split cfg norm split cols a0 = Inr a"
      by blast
  }
qed

lemma loc_single:
  "rows full = [rf] \<Longrightarrow> loc full lbl c = Inr v \<Longrightarrow> v = cell rf c"
  by (auto simp: loc_def split: if_splits list.splits)

text \<open>
  The values of a merge that returns. For a group with at least one split row, every column
  that the merge keeps, other than the discriminator, maps to the normalised cell of the full
  row (or \<open>.\<close> when the group has no full row) followed by the normalised cells of the
  split rows in row order, joined with \<open>|\<close> and with nothing removed; the discriminator
  maps to the label \<open>full&split\<close>.
\<close>

theorem merged_value_full_then_splits:
  assumes ok: "merge_full_and_split cfg norm df = Inr (w, a)"
    and S: "tagged cfg ''split'' df \<noteq> []"
    and dist: "distinct (columns df)"
    and ann: "ann \<in> set (columns df)" "ann \<notin> set base_vcf_cols"
  shows "(ann \<noteq> annotation_mode_col cfg \<longrightarrow>
            map_of a ann =
              Some (join ''|''
                ((case tagged cfg ''full'' df of [] \<Rightarrow> ''.'' | r # _ \<Rightarrow> norm (cell r ann))
                 # map (\<lambda>r. norm (cell r ann)) (tagged cfg ''split'' df))))
         \<and> map_of a (annotation_mode_col cfg) = Some ''full&split''"
proof -
  let ?c = "annotation_mode_col cfg"
  let ?sel = "select_cols (\<lambda>c. c \<notin> set base_vcf_cols) df"
  define cols where "cols = filter (\<lambda>c. c \<notin> set base_vcf_cols) (columns df)"
  define split where "split = group_of ?c ''split'' ?sel"
  define full where "full = group_of ?c ''full'' ?sel"
  note ms = merge_success [OF ok, folded cols_def split_def full_def]
  have dcols: "distinct cols" and ain: "ann \<in> set cols"
    using dist ann by (simp_all add: cols_def)
  have cv: "\<And>k. col_values split k = map (\<lambda>r. cell r k) (tagged cfg ''split'' df)"
    by (simp add: split_def col_values_def group_of_def select_cols_def tagged_def)
  have rowsF: "rows full = tagged cfg ''full'' df"
    by (simp add: full_def group_of_def select_cols_def tagged_def)
  show ?thesis
  proof (cases "tagged cfg ''full'' df")
    case Nil
    from ms(3) [OF Nil S] have m: "merge_split cfg norm split cols (seed_dots cols []) = Inr a" .
    from merge_split_hit [OF m dcols ms(2)] have "map_of a ?c = Some (mode cfg)" by simp
    moreover
    { assume "ann \<noteq> ?c"
      with merge_split_hit [OF m dcols ain] ain
      have "map_of a ann = Some (join ''|'' (''.'' # map norm (col_values split ann)))"
        by (auto simp: map_of_seed_dots) }
    ultimately show ?thesis using Nil ms(1) by (simp add: cv comp_def)
  next
    case (Cons r rs)
    then have "tagged cfg ''full'' df \<noteq> []" by simp
    from ms(4) [OF this S] obtain rf lbl a0 where
      rf: "tagged cfg ''full'' df = [rf]"
      and sf: "seed_full norm full lbl cols [] = Inr a0"
      and m: "merge_split cfg norm split cols a0 = Inr a"
      by blast
    from merge_split_hit [OF m dcols ms(2)] have "map_of a ?c = Some (mode cfg)" by simp
    moreover
    { assume ne: "ann \<noteq> ?c"
      from seed_full_hit [OF sf ain] obtain v where
        v: "loc full lbl ann = Inr v" and a0: "map_of a0 ann = Some (norm v)" by blast
      from loc_single [OF _ v] rowsF rf have "v = cell rf ann" by simp
      with merge_split_hit [OF m dcols ain] ne a0
      have "map_of a ann = Some (join ''|'' (norm (cell rf ann) # map norm (col_values split ann)))"
        by auto }
    ultimately show ?thesis using rf ms(1) by (simp add: cv comp_def)
  qed
qed

subsection \<open>Groups that the merge rejects\<close>

lemma collect_types_error:
  "collect_types gs dfs = Inl e \<Longrightarrow> e = ValueError msg_type"
  by (induction gs arbitrary: dfs) (auto split: if_splits)

lemma missing_discriminator_KeyError:
  assumes "mode cfg = ''full&split''"
    and "annotation_mode_col cfg \<notin> set (columns df) \<or> annotation_mode_col cfg \<in> set base_vcf_cols"
  shows "merge_full_and_split cfg norm df = Inl (KeyError (annotation_mode_col cfg))"
  using assms by (auto simp: merge_full_and_split_def groupby_def select_cols_def)

lemma several_full_ValueError:
  assumes len: "1 < length (tagged cfg ''full'' df)"
    and cin: "annotation_mode_col cfg \<in> set (columns df)"
    and nb: "annotation_mode_col cfg \<notin> set base_vcf_cols"
  shows "\<exists>m. merge_full_and_split cfg norm df = Inl (ValueError m)"
proof (cases "mode cfg = ''full&split''")
  case False
  then show ?thesis by (simp add: merge_full_and_split_def)
next
  case True
  let ?c = "annotation_mode_col cfg"
  let ?df = "select_cols (\<lambda>c. c \<notin> set base_vcf_cols) df"
  let ?groups = "map (\<lambda>k. (k, group_of ?c k ?df)) (sort (remdups (col_values ?df ?c)))"
  have g: "groupby ?c ?df = Inr ?groups"
    using cin nb by (simp add: groupby_def select_cols_def)
  show ?thesis
  proof (cases "collect_types ?groups Map.empty")
    case (Inl e)
    with collect_types_error [OF Inl] True g show ?thesis
      by (simp add: merge_full_and_split_def)
  next
    case (Inr dfs)
    from len have F: "tagged cfg ''full'' df \<noteq> []" by auto
    from collect_types_map [OF Inr]
    have "dfs ''full'' = (if ''full'' \<in> set (col_values ?df ?c) then Some (group_of ?c ''full'' ?df) else None)"
      by simp
    moreover have "''full'' \<in> set (col_values ?df ?c)"
      using F unfolding group_present by (simp add: tagged_def select_cols_def)
    ultimately have d: "dfs ''full'' = Some (group_of ?c ''full'' ?df)" by simp
    have "rows (group_of ?c ''full'' ?df) = tagged cfg ''full'' df"
      by (simp add: group_of_def select_cols_def tagged_def)
    with len have "length (rows (group_of ?c ''full'' ?df)) > 1" by simp
    with True g Inr d show ?thesis
      by (simp add: merge_full_and_split_def)
  qed
qed

text \<open>
  Claim C6. A group with more than one row tagged full is never merged: the method fails,
  and when the discriminator is a column that the merge sees, it fails with a
  \<open>ValueError\<close>.
\<close>

theorem several_full_rows_rejected:
  assumes "1 < length (tagged cfg ''full'' df)"
  shows "(\<exists>e. merge_full_and_split cfg norm df = Inl e) \<and>
         (annotation_mode_col cfg \<in> set (columns df) \<and> annotation_mode_col cfg \<notin> set base_vcf_cols
            \<longrightarrow> (\<exists>m. merge_full_and_split cfg norm df = Inl (ValueError m)))"
proof (cases "annotation_mode_col cfg \<in> set (columns df) \<and> annotation_mode_col cfg \<notin> set base_vcf_cols")
  case True
  with several_full_ValueError [OF assms, of norm] show ?thesis by auto
next
  case False
  show ?thesis
  proof (cases "mode cfg = ''full&split''")
    case True
    with missing_discriminator_KeyError [of cfg df norm] False show ?thesis by auto
  next
    case F: False
    then show ?thesis using False by (simp add: merge_full_and_split_def)
  qed
qed

subsection \<open>The merge on the example groups\<close>

theorem merged_value_full_then_splits_witness:
  "merge_full_and_split ex_cfg (\<lambda>s. s) ex_group = Inr ([], ex_merged)
   \<and> tagged ex_cfg ''split'' ex_group \<noteq> []
   \<and> map_of ex_merged ''Gene'' = Some ''BRCA1|BRCA1|BRCA1''
   \<and> map_of ex_merged ''Annotation_mode'' = Some ''full&split''"
proof -
  have ok: "merge_full_and_split ex_cfg (\<lambda>s. s) ex_group = Inr ([], ex_merged)"
    by code_simp
  have S: "tagged ex_cfg ''split'' ex_group \<noteq> []"
    by code_simp
  have d: "distinct (columns ex_group)"
    by code_simp
  have a1: "''Gene'' \<in> set (columns ex_group)"
    by code_simp
  have a2: "''Gene'' \<notin> set base_vcf_cols"
    by code_simp
  have F: "(case tagged ex_cfg ''full'' ex_group of [] \<Rightarrow> ''.'' | r # _ \<Rightarrow> cell r ''Gene'') = ''BRCA1''"
    by (simp add: tagged_def ex_cfg_def ex_group_def mk_frame_def cell_def row_of_def upt_rec)
  have Sv: "map (\<lambda>r. cell r ''Gene'') (tagged ex_cfg ''split'' ex_group) = [''BRCA1'', ''BRCA1'']"
    by (simp add: tagged_def ex_cfg_def ex_group_def mk_frame_def cell_def row_of_def upt_rec)
  have m: "annotation_mode_col ex_cfg = ''Annotation_mode''"
    by (simp add: ex_cfg_def)
  from merged_value_full_then_splits [OF ok S d a1 a2] ok S show ?thesis
    by (simp add: F Sv m)
qed

theorem several_full_rows_rejected_witness:
  "1 < length (tagged ex_cfg ''full'' ex_two_full)
   \<and> (\<exists>m. merge_full_and_split ex_cfg (\<lambda>s. s) ex_two_full = Inl (ValueError m))"
proof -
  have len: "1 < length (tagged ex_cfg ''full'' ex_two_full)"
    by code_simp
  have c: "annotation_mode_col ex_cfg \<in> set (columns ex_two_full)"
    by code_simp
  have b: "annotation_mode_col ex_cfg \<notin> set base_vcf_cols"
    by code_simp
  from several_full_rows_rejected [OF len, of "\<lambda>s. s"] c b len show ?thesis
    by blast
qed

subsection \<open>Groups without a usable discriminator\<close>

lemma warning_only_for_empty_group:
  assumes ok: "merge_full_and_split cfg norm df = Inr (w, a)" and w: "w \<noteq> []"
  shows "rows df = []"
proof (rule ccontr)
  assume ne: "rows df \<noteq> []"
  let ?c = "annotation_mode_col cfg"
  let ?df = "select_cols (\<lambda>c. c \<notin> set base_vcf_cols) df"
  from ok have m: "mode cfg = ''full&split''"
    by (auto simp: merge_full_and_split_def split: if_splits)
  from ok m obtain groups where g: "groupby ?c ?df = Inr groups"
    by (auto simp: merge_full_and_split_def Let_def split: sum.splits)
  then have groups: "groups = map (\<lambda>k. (k, group_of ?c k ?df)) (sort (remdups (col_values ?df ?c)))"
    by (auto simp: groupby_def split: if_splits)
  from ok m g obtain dfs where ct: "collect_types groups Map.empty = Inr dfs"
    by (auto simp: merge_full_and_split_def Let_def split: sum.splits)
  note cm = collect_types_map [OF ct [unfolded groups]]
  from ne obtain r rs where r: "rows df = r # rs" by (cases "rows df") auto
  then have kin: "cell r ?c \<in> set (col_values ?df ?c)"
    by (simp add: col_values_def select_cols_def)
  with cm have tag: "cell r ?c = ''full'' \<or> cell r ?c = ''split''" by simp
  from kin have kin': "cell r ?c \<in> set (sort (remdups (col_values ?df ?c)))" by simp
  from cm have "dfs (cell r ?c) =
      (if cell r ?c \<in> set (sort (remdups (col_values ?df ?c)))
       then Some (group_of ?c (cell r ?c) ?df) else None)"
    by blast
  with kin' have "dfs (cell r ?c) \<noteq> None" by (simp only: if_True option.distinct not_False_eq_True)
  with tag have some: "dfs ''full'' \<noteq> None \<or> dfs ''split'' \<noteq> None" by metis
  have eq: "merge_full_and_split cfg norm df =
     (case dfs ''full'' of
                  None \<Rightarrow>
                    (case dfs ''split'' of
                       None \<Rightarrow> Inr ([warn_no_mode], [])
                     | Some split \<Rightarrow>
                         (case merge_split cfg norm split (columns split)
                                 (seed_dots (columns split) []) of
                            Inl e \<Rightarrow> Inl e
                          | Inr a \<Rightarrow> Inr ([], a)))
                | Some full \<Rightarrow>
                    if length (rows full) > 1 then Inl (ValueError msg_one_full)
                    else
                      (case rows ?df of
                         [] \<Rightarrow> Inl IndexError
                       | r0 # _ \<Rightarrow>
                          (case seed_full norm full (fst r0) (columns full) [] of
                             Inl e \<Rightarrow> Inl e
                           | Inr a0 \<Rightarrow>
                              (case dfs ''split'' of
                                 None \<Rightarrow> Inr ([], a0)
                               | Some split \<Rightarrow>
                                   (case merge_split cfg norm split (columns split) a0 of
                                      Inl e \<Rightarrow> Inl e
                                    | Inr a \<Rightarrow> Inr ([], a))))))"
    by (simp add: merge_full_and_split_def m g ct)
  show False
  proof (cases "dfs ''full''")
    case None
    with some obtain split where "dfs ''split'' = Some split" by auto
    with ok w None show False
      unfolding eq by (simp split: sum.splits)
  next
    case (Some full)
    with ok w show False
      unfolding eq by (simp split: sum.splits if_splits list.splits option.splits)
  qed
qed

text \<open>
  Claim C7 asks for a warning and an empty annotation when no full and no split row can be
  identified. The warning is logged only for a group without rows
  (\<open>warning_only_for_empty_group\<close>), which \<open>groupby\<close> never yields; a group whose
  discriminator column is missing ends the merge with the \<open>KeyError\<close> of \<open>groupby\<close>
  (\<open>missing_discriminator_KeyError\<close>), and the conversion of such a table ends before the
  output is opened. The code on the example without the column:
\<close>

theorem missing_discriminator_fails:
  "merge_full_and_split ex_cfg (\<lambda>s. s) ex_no_mode = Inl (KeyError ''Annotation_mode'')
   \<and> convert ex_ext ex_cfg ''in.tsv'' ex_table_no_mode
       = Failed_before_open (KeyError ''Annotation_mode'')"
  by code_simp

subsection \<open>The sample list\<close>

lemma split_on_no_sep: "d \<notin> set s \<Longrightarrow> split_on d s = [s]"
  by (induction s) auto

lemma cell_samples_split: "cell_samples c = split_on (CHR '','') c"
  by (simp add: cell_samples_def split_on_no_sep)

text \<open>
  Claim C8, as the code has it. The test of line 62 compares the configured FORMAT role with
  the name \<open>FORMAT\<close>: under that configuration, and with the samples column present, the
  sample list is refused with the \<open>ValueError\<close> exactly when some name obtained by
  splitting a cell of the samples column at the commas is not a column of the table.
\<close>

theorem samples_need_columns_when_FORMAT_named_FORMAT:
  assumes "format_col cfg = ''FORMAT''" and "sample_col cfg \<in> set (columns df)"
  shows "get_sample_list cfg df = Inl (ValueError msg_samples) \<longleftrightarrow>
           (\<exists>r \<in> set (rows df). \<exists>s \<in> set (split_on (CHR '','') (cell r (sample_col cfg))).
              s \<notin> set (columns df))"
  using assms
  by (auto simp: get_sample_list_def Let_def col_values_def cell_samples_split)

theorem samples_need_columns_when_FORMAT_named_FORMAT_witness:
  "format_col ex_cfg_FORMAT = ''FORMAT'' \<and> sample_col ex_cfg_FORMAT \<in> set (columns ex_table_FORMAT)
   \<and> get_sample_list ex_cfg_FORMAT ex_table_FORMAT = Inl (ValueError msg_samples)"
proof -
  have f: "format_col ex_cfg_FORMAT = ''FORMAT''" by code_simp
  have s: "sample_col ex_cfg_FORMAT \<in> set (columns ex_table_FORMAT)" by code_simp
  have e: "\<exists>r \<in> set (rows ex_table_FORMAT).
             \<exists>s \<in> set (split_on (CHR '','') (cell r (sample_col ex_cfg_FORMAT))).
               s \<notin> set (columns ex_table_FORMAT)"
    by code_simp
  from samples_need_columns_when_FORMAT_named_FORMAT [OF f s] e f s show ?thesis
    by simp
qed

text \<open>
  Claim C8 as stated fails: a FORMAT role mapped to an existing column of another name
  (\<open>FMT\<close>) is not checked, and the sample \<open>S1\<close> without a column is returned.
\<close>

theorem samples_unchecked_for_other_FORMAT_column:
  "format_col ex_cfg_FMT \<in> set (columns ex_table_FMT)
   \<and> ''S1'' \<in> set (split_on (CHR '','') ''S1'')
   \<and> col_values ex_table_FMT (sample_col ex_cfg_FMT) = [''S1'']
   \<and> ''S1'' \<notin> set (columns ex_table_FMT)
   \<and> get_sample_list ex_cfg_FMT ex_table_FMT = Inr [''S1'']"
  by code_simp

subsection \<open>The SV_type column\<close>

lemma columns_set_col: "set (columns (set_col c v df)) = insert c (set (columns df))"
  by (auto simp: set_col_def)

lemma main_vcf_cols_loop_columns:
  "main_vcf_cols_loop cfg roles df cols = Inr (df', cols') \<Longrightarrow>
     set (columns df') = set (columns df) \<union> set (filter (unmapped cfg) roles)"
proof (induction roles arbitrary: df cols)
  case Nil
  then show ?case by simp
next
  case (Cons role roles)
  show ?case
  proof (cases "map_of (vcf_columns cfg) role")
    case None
    with Cons.prems show ?thesis by simp
  next
    case (Some v)
    show ?thesis
    proof (cases "unmapped cfg role")
      case True
      with Cons.prems Some
      have "main_vcf_cols_loop cfg roles (set_col role ''.'' df) (cols @ [role]) = Inr (df', cols')"
        by (cases v) (simp_all add: unmapped_def)
      from Cons.IH [OF this] True show ?thesis
        by (simp add: columns_set_col)
    next
      case False
      with Some obtain c where v: "v = Name c" and c: "c \<noteq> []"
        by (cases v) (simp_all add: unmapped_def)
      with Cons.prems Some
      have "main_vcf_cols_loop cfg roles df (cols @ [c]) = Inr (df', cols')"
        by simp
      from Cons.IH [OF this] False show ?thesis
        by simp
    qed
  qed
qed

lemma get_main_vcf_cols_columns:
  "get_main_vcf_cols cfg df = Inr (df', cols) \<Longrightarrow>
     set (columns df') = set (columns df) \<union> set (placeholder_cols cfg)"
  unfolding get_main_vcf_cols_def placeholder_cols_def
  by (rule main_vcf_cols_loop_columns)

lemma drop_loop_columns:
  "drop_loop input cs acc = Some d \<Longrightarrow>
     acc = Some d \<or> set (columns d) \<subseteq> set (columns input)"
proof (induction cs arbitrary: acc)
  case Nil
  then show ?case by simp
next
  case (Cons c cs)
  from Cons.prems have
    "drop_loop input cs (case drop_col c input of Inr d \<Rightarrow> Some d | Inl e \<Rightarrow> acc) = Some d"
    by simp
  from Cons.IH [OF this] show ?case
    by (auto simp: drop_col_def split: if_splits)
qed





subsection \<open>The columns that reach the merge\<close>

text \<open>
  When the table has the raw INFO column, the last name of the list, the loop of lines 82-86
  drops that column and no other.
\<close>

lemma drop_loop_last:
  "c \<in> set (columns input_df) \<Longrightarrow>
     drop_loop input_df (cs @ [c]) acc
       = Some (input_df\<lparr>columns := removeAll c (columns input_df)\<rparr>)"
  by (induction cs arbitrary: acc) (simp_all add: drop_col_def)

text \<open>
  Claim C3 asks that no main column, FORMAT column, samples column, sample column or raw INFO
  column is a key of a merged annotation. The code on the example table made from a VCF: only
  the INFO column is gone; the chromosome and position columns, the samples column, the
  FORMAT column and the column of the sample \<open>S1\<close> are keys of the merged annotation.
\<close>

theorem merged_annotation_keeps_vcf_columns:
  "merged_annotations ex_ext ex_cfg_FORMAT ex_table_vcf =
     Inr [(''V1'',
           [(''AnnotSV_ID'', ''V1''), (''SV_chrom'', ''chr1''), (''SV_start'', ''100''),
            (''SV_type'', ''DEL''), (''Samples_ID'', ''S1''), (''Annotation_mode'', ''full''),
            (''FORMAT'', ''GT''), (''S1'', ''0/1''), (''Gene'', ''BRCA1'')])]"
  by code_simp

subsection \<open>Semicolons\<close>

lemma no_semicolon_replace: "no_semicolon (replace_semicolon s)"
  by (auto simp: no_semicolon_def replace_semicolon_def)

lemma no_semicolon_join:
  "no_semicolon sep \<Longrightarrow> \<forall>x \<in> set xs. no_semicolon x \<Longrightarrow> no_semicolon (join sep xs)"
  by (induction sep xs rule: join.induct) (auto simp: no_semicolon_def)

lemma set_dict_set: "set (dict_set k v d) \<subseteq> insert (k, v) (set d)"
  by (induction d) (auto split: if_splits)

lemma dict_set_good:
  "\<forall>(k, v) \<in> set a. k \<in> S \<and> no_semicolon v \<Longrightarrow> k' \<in> S \<Longrightarrow> no_semicolon v' \<Longrightarrow>
     \<forall>(k, v) \<in> set (dict_set k' v' a). k \<in> S \<and> no_semicolon v"
  using set_dict_set [of k' v' a] by auto

lemma seed_dots_good:
  "\<forall>(k, v) \<in> set a. k \<in> S \<and> no_semicolon v \<Longrightarrow> set anns \<subseteq> S \<Longrightarrow>
     \<forall>(k, v) \<in> set (seed_dots anns a). k \<in> S \<and> no_semicolon v"
proof (induction anns arbitrary: a)
  case Nil
  then show ?case by simp
next
  case (Cons ann anns)
  have "no_semicolon ''.''" by (simp add: no_semicolon_def)
  with Cons.prems have "\<forall>(k, v) \<in> set (dict_set ann ''.'' a). k \<in> S \<and> no_semicolon v"
    by (intro dict_set_good) auto
  with Cons.IH [of "dict_set ann ''.'' a"] Cons.prems show ?case by simp
qed

lemma loc_in_rows: "loc df lbl c = Inr v \<Longrightarrow> \<exists>r \<in> set (rows df). v = cell r c"
proof -
  assume a: "loc df lbl c = Inr v"
  then obtain r rs where f: "filter (\<lambda>r. fst r = lbl) (rows df) = r # rs"
    by (cases "filter (\<lambda>r. fst r = lbl) (rows df)") (auto simp: loc_def)
  then have "r \<in> set (filter (\<lambda>r. fst r = lbl) (rows df))" by simp
  then have "r \<in> set (rows df)" by simp
  moreover from a f have "v = cell r c" by (auto simp: loc_def split: if_splits)
  ultimately show ?thesis by blast
qed

lemma seed_full_good:
  assumes "seed_full norm full lbl anns a = Inr a'"
    and "\<forall>(k, v) \<in> set a. k \<in> S \<and> no_semicolon v"
    and "set anns \<subseteq> S"
    and cells: "\<forall>r \<in> set (rows full). \<forall>c. no_semicolon (cell r c)"
    and norm: "\<forall>s. no_semicolon s \<longrightarrow> no_semicolon (norm s)"
  shows "\<forall>(k, v) \<in> set a'. k \<in> S \<and> no_semicolon v"
  using assms(1-3)
proof (induction anns arbitrary: a)
  case Nil
  then show ?case by simp
next
  case (Cons ann anns)
  from Cons.prems(1) obtain v where v: "loc full lbl ann = Inr v"
    and rest: "seed_full norm full lbl anns (dict_set ann (norm v) a) = Inr a'"
    by (auto split: sum.splits)
  from loc_in_rows [OF v] cells norm have "no_semicolon (norm v)" by auto
  with Cons.prems have "\<forall>(k, v) \<in> set (dict_set ann (norm v) a). k \<in> S \<and> no_semicolon v"
    by (intro dict_set_good) auto
  from Cons.IH [OF rest this] Cons.prems(3) show ?case by simp
qed

lemma merge_split_good:
  assumes "merge_split cfg norm split anns a = Inr a'"
    and "\<forall>(k, v) \<in> set a. k \<in> S \<and> no_semicolon v"
    and "set anns \<subseteq> S"
    and md: "no_semicolon (mode cfg)"
    and cells: "\<forall>r \<in> set (rows split). \<forall>c. no_semicolon (cell r c)"
    and norm: "\<forall>s. no_semicolon s \<longrightarrow> no_semicolon (norm s)"
  shows "\<forall>(k, v) \<in> set a'. k \<in> S \<and> no_semicolon v"
  using assms(1-3)
proof (induction anns arbitrary: a)
  case Nil
  then show ?case by simp
next
  case (Cons ann anns)
  from Cons.prems(3) have annS: "ann \<in> S" and rest: "set anns \<subseteq> S" by auto
  show ?case
  proof (cases "ann = annotation_mode_col cfg")
    case True
    with Cons.prems(1)
    have m: "merge_split cfg norm split anns (dict_set ann (mode cfg) a) = Inr a'" by simp
    from Cons.prems(2) annS md
    have "\<forall>(k, v) \<in> set (dict_set ann (mode cfg) a). k \<in> S \<and> no_semicolon v"
      by (rule dict_set_good)
    from Cons.IH [OF m this rest] show ?thesis .
  next
    case False
    with Cons.prems(1) obtain v where v: "map_of a ann = Some v"
      and m: "merge_split cfg norm split anns
                (dict_set ann (join ''|'' (v # map norm (col_values split ann))) a) = Inr a'"
      by (auto split: option.splits)
    from v have "(ann, v) \<in> set a" by (rule map_of_SomeD)
    with Cons.prems(2) have cv: "no_semicolon v" by auto
    have "\<forall>x \<in> set (map norm (col_values split ann)). no_semicolon x"
      using cells norm by (auto simp: col_values_def)
    with cv have "\<forall>x \<in> set (v # map norm (col_values split ann)). no_semicolon x" by simp
    moreover have "no_semicolon ''|''" by (simp add: no_semicolon_def)
    ultimately have "no_semicolon (join ''|'' (v # map norm (col_values split ann)))"
      by (intro no_semicolon_join)
    with Cons.prems(2) annS
    have "\<forall>(k, v) \<in> set (dict_set ann (join ''|'' (v # map norm (col_values split ann))) a).
            k \<in> S \<and> no_semicolon v"
      by (rule dict_set_good)
    from Cons.IH [OF m this rest] show ?thesis .
  qed
qed

lemma merge_good:
  assumes ok: "merge_full_and_split cfg norm df = Inr (w, a)"
    and cells: "\<forall>r \<in> set (rows df). \<forall>c. no_semicolon (cell r c)"
    and norm: "\<forall>s. no_semicolon s \<longrightarrow> no_semicolon (norm s)"
  shows "\<forall>(k, v) \<in> set a. k \<in> set (columns df) \<and> no_semicolon v"
proof -
  let ?c = "annotation_mode_col cfg"
  let ?df = "select_cols (\<lambda>c. c \<notin> set base_vcf_cols) df"
  let ?S = "set (columns df)"
  from ok have m: "mode cfg = ''full&split''"
    by (auto simp: merge_full_and_split_def split: if_splits)
  then have md: "no_semicolon (mode cfg)" by (simp add: no_semicolon_def)
  from ok m obtain groups where g: "groupby ?c ?df = Inr groups"
    by (auto simp: merge_full_and_split_def Let_def split: sum.splits)
  then have groups: "groups = map (\<lambda>k. (k, group_of ?c k ?df)) (sort (remdups (col_values ?df ?c)))"
    by (auto simp: groupby_def split: if_splits)
  from ok m g obtain dfs where ct: "collect_types groups Map.empty = Inr dfs"
    by (auto simp: merge_full_and_split_def Let_def split: sum.splits)
  from collect_types_map [OF ct [unfolded groups]]
  have dfs: "\<And>k x. dfs k = Some x \<Longrightarrow> x = group_of ?c k ?df"
    by (auto split: if_splits)
  have gcols: "\<And>k. set (columns (group_of ?c k ?df)) \<subseteq> ?S"
    by (auto simp: group_of_def select_cols_def)
  have gcells: "\<And>k. \<forall>r \<in> set (rows (group_of ?c k ?df)). \<forall>c. no_semicolon (cell r c)"
    using cells by (auto simp: group_of_def select_cols_def)
  have empty: "\<forall>(k, v) \<in> set ([] :: annots). k \<in> ?S \<and> no_semicolon v" by simp
  have eq: "merge_full_and_split cfg norm df =
     (case dfs ''full'' of
                  None \<Rightarrow>
                    (case dfs ''split'' of
                       None \<Rightarrow> Inr ([warn_no_mode], [])
                     | Some split \<Rightarrow>
                         (case merge_split cfg norm split (columns split)
                                 (seed_dots (columns split) []) of
                            Inl e \<Rightarrow> Inl e
                          | Inr a \<Rightarrow> Inr ([], a)))
                | Some full \<Rightarrow>
                    if length (rows full) > 1 then Inl (ValueError msg_one_full)
                    else
                      (case rows ?df of
                         [] \<Rightarrow> Inl IndexError
                       | r0 # _ \<Rightarrow>
                          (case seed_full norm full (fst r0) (columns full) [] of
                             Inl e \<Rightarrow> Inl e
                           | Inr a0 \<Rightarrow>
                              (case dfs ''split'' of
                                 None \<Rightarrow> Inr ([], a0)
                               | Some split \<Rightarrow>
                                   (case merge_split cfg norm split (columns split) a0 of
                                      Inl e \<Rightarrow> Inl e
                                    | Inr a \<Rightarrow> Inr ([], a))))))"
    by (simp add: merge_full_and_split_def m g ct)
  show ?thesis
  proof (cases "dfs ''full''")
    case None
    show ?thesis
    proof (cases "dfs ''split''")
      case N2: None
      with ok None have "a = []" unfolding eq by simp
      then show ?thesis by simp
    next
      case (Some split)
      note sp = dfs [OF Some]
      from ok None Some
      have ms: "merge_split cfg norm split (columns split) (seed_dots (columns split) []) = Inr a"
        unfolding eq by (simp split: sum.splits)
      have sc: "set (columns split) \<subseteq> ?S" unfolding sp by (rule gcols)
      have "\<forall>(k, v) \<in> set (seed_dots (columns split) []). k \<in> ?S \<and> no_semicolon v"
        using empty sc by (rule seed_dots_good)
      from merge_split_good [OF ms this sc md _ norm] gcells [of "''split''"] sp
      show ?thesis by simp
    qed
  next
    case (Some full)
    note fu = dfs [OF Some]
    have fc: "set (columns full) \<subseteq> ?S" unfolding fu by (rule gcols)
    from ok Some obtain lbl a0 where
      sf: "seed_full norm full lbl (columns full) [] = Inr a0"
      and rest: "(case dfs ''split'' of
                    None \<Rightarrow> Inr ([], a0)
                  | Some split \<Rightarrow>
                     (case merge_split cfg norm split (columns split) a0 of
                        Inl e \<Rightarrow> Inl e
                      | Inr a \<Rightarrow> Inr ([], a))) = (Inr (w, a) :: error + (string list \<times> annots))"
      unfolding eq by (auto split: if_splits list.splits sum.splits)
    from seed_full_good [OF sf empty fc _ norm] gcells [of "''full''"] fu
    have a0: "\<forall>(k, v) \<in> set a0. k \<in> ?S \<and> no_semicolon v" by simp
    show ?thesis
    proof (cases "dfs ''split''")
      case None
      with rest have "a = a0" by simp
      with a0 show ?thesis by simp
    next
      case S2: (Some split)
      note sp = dfs [OF S2]
      from rest S2 have ms: "merge_split cfg norm split (columns split) a0 = Inr a"
        by (simp split: sum.splits)
      have sc: "set (columns split) \<subseteq> ?S" unfolding sp by (rule gcols)
      from merge_split_good [OF ms a0 sc md _ norm] gcells [of "''split''"] sp
      show ?thesis by simp
    qed
  qed
qed

lemma build_input_annot_df_clean:
  assumes "build_input_annot_df cfg input_df sample_list main_vcf_cols = Inr df"
  shows "(\<forall>r \<in> set (rows df). \<forall>c. no_semicolon (cell r c)) \<and>
         set (columns df) \<subseteq> set (columns input_df)"
proof -
  from assms obtain d where
    d: "drop_loop input_df
          (sample_list @ main_vcf_cols @ [sample_col cfg, format_col cfg, info_col cfg]) None = Some d"
    and df: "df = replace_cells d"
    by (auto simp: build_input_annot_df_def Let_def split: option.splits if_splits)
  from drop_loop_columns [OF d] have "set (columns d) \<subseteq> set (columns input_df)" by simp
  then show ?thesis
    by (auto simp: df replace_cells_def cell_def no_semicolon_replace)
qed

lemma merge_groups_good:
  assumes "merge_groups cfg norm gs log dic = Inr (log', dic')"
    and "\<forall>(vid, a) \<in> set dic. \<forall>(k, v) \<in> set a. k \<in> S \<and> no_semicolon v"
    and "\<forall>(vid, g) \<in> set gs. set (columns g) \<subseteq> S \<and> (\<forall>r \<in> set (rows g). \<forall>c. no_semicolon (cell r c))"
    and norm: "\<forall>s. no_semicolon s \<longrightarrow> no_semicolon (norm s)"
  shows "\<forall>(vid, a) \<in> set dic'. \<forall>(k, v) \<in> set a. k \<in> S \<and> no_semicolon v"
  using assms(1-3)
proof (induction gs arbitrary: log dic)
  case Nil
  then show ?case by simp
next
  case (Cons g gs)
  obtain vid df where g: "g = (vid, df)" by (cases g)
  from Cons.prems(1) g obtain w a where
    ok: "merge_full_and_split cfg norm df = Inr (w, a)"
    and rest: "merge_groups cfg norm gs (log @ w) (dict_set vid a dic) = Inr (log', dic')"
    by (auto split: sum.splits)
  from Cons.prems(3) g have cols: "set (columns df) \<subseteq> S"
    and cells: "\<forall>r \<in> set (rows df). \<forall>c. no_semicolon (cell r c)" by auto
  from merge_good [OF ok cells norm] cols
  have a: "\<forall>(k, v) \<in> set a. k \<in> S \<and> no_semicolon v" by auto
  have "\<forall>(vid, a) \<in> set (dict_set vid a dic). \<forall>(k, v) \<in> set a. k \<in> S \<and> no_semicolon v"
    using Cons.prems(2) a by (auto dest!: subsetD [OF set_dict_set])
  moreover from Cons.prems(3) have
    "\<forall>(vid, g) \<in> set gs. set (columns g) \<subseteq> S \<and> (\<forall>r \<in> set (rows g). \<forall>c. no_semicolon (cell r c))"
    by simp
  ultimately show ?case using Cons.IH [OF rest] by blast
qed

lemma count_join_semicolon:
  "\<forall>x \<in> set xs. no_semicolon x \<Longrightarrow> count_list (join '';'' xs) (CHR '';'') = length xs - 1"
  by (induction "'';''" xs rule: join.induct) (auto simp: no_semicolon_def count_list_0_iff)

lemma main_roles_clean: "\<forall>c \<in> set main_roles. no_semicolon c"
  by (simp add: main_roles_def no_semicolon_def)

lemma prepare_info_dic_good:
  assumes p: "prepare ext cfg loaded = Inr (sample_list, input_df, main_vcf_cols, info_dic)"
    and norm: "\<forall>s. no_semicolon s \<longrightarrow> no_semicolon (remove_decimal_or_strip ext s)"
  shows "\<forall>(vid, a) \<in> set info_dic. \<forall>(k, v) \<in> set a.
           k \<in> set (columns loaded) \<union> set main_roles \<and> no_semicolon v"
proof -
  let ?S = "set (columns loaded) \<union> set main_roles"
  from p have gm: "get_main_vcf_cols cfg loaded = Inr (input_df, main_vcf_cols)"
    by (auto simp: prepare_def split: sum.splits)
  from p gm obtain log where
    bi: "build_info_dic cfg (remove_decimal_or_strip ext) input_df sample_list main_vcf_cols
           = Inr (log, info_dic)"
    by (auto simp: prepare_def split: sum.splits)
  then obtain df where bd: "build_input_annot_df cfg input_df sample_list main_vcf_cols = Inr df"
    by (auto simp: build_info_dic_def split: sum.splits)
  from bi bd obtain groups where g: "groupby (annotsv_id_col cfg) df = Inr groups"
    and mg: "merge_groups cfg (remove_decimal_or_strip ext) groups [] [] = Inr (log, info_dic)"
    by (auto simp: build_info_dic_def split: sum.splits)
  from get_main_vcf_cols_columns [OF gm]
  have "set (columns input_df) \<subseteq> ?S" by (auto simp: placeholder_cols_def)
  with build_input_annot_df_clean [OF bd]
  have cols: "set (columns df) \<subseteq> ?S"
    and cells: "\<forall>r \<in> set (rows df). \<forall>c. no_semicolon (cell r c)" by auto
  from g have "groups = map (\<lambda>k. (k, group_of (annotsv_id_col cfg) k df))
                          (sort (remdups (col_values df (annotsv_id_col cfg))))"
    by (auto simp: groupby_def split: if_splits)
  with cols cells have
    gs: "\<forall>(vid, g) \<in> set groups. set (columns g) \<subseteq> ?S \<and>
            (\<forall>r \<in> set (rows g). \<forall>c. no_semicolon (cell r c))"
    by (auto simp: group_of_def)
  have e: "\<forall>(vid, a) \<in> set ([] :: info_dic). \<forall>(k, v) \<in> set a. k \<in> ?S \<and> no_semicolon v"
    by simp
  from merge_groups_good [OF mg e gs norm] show ?thesis .
qed

text \<open>
  Claim C10, as the code has it. Line 87 replaces the semicolons of the cells
  (\<open>build_input_annot_df_clean\<close>), not those of the column names. Provided
  \<open>remove_decimal_or_strip\<close> puts no semicolon into a string that has none, no value of a
  merged annotation contains a semicolon; and when no column name of the table contains one,
  the semicolons of the INFO field of a variant are the separators of its pairs, one fewer
  than the pairs.
\<close>

theorem info_values_without_semicolon:
  assumes ma: "merged_annotations ext cfg loaded = Inr info_dic"
    and norm: "\<forall>s. no_semicolon s \<longrightarrow> no_semicolon (remove_decimal_or_strip ext s)"
    and a: "(vid, a) \<in> set info_dic"
  shows "(\<forall>(k, v) \<in> set a. no_semicolon v) \<and>
         ((\<forall>c \<in> set (columns loaded). no_semicolon c) \<longrightarrow>
            count_list (info_field a) (CHR '';'') = length a - 1)"
proof -
  from ma obtain sample_list input_df main_vcf_cols where
    p: "prepare ext cfg loaded = Inr (sample_list, input_df, main_vcf_cols, info_dic)"
    by (auto simp: merged_annotations_def split: sum.splits)
  from prepare_info_dic_good [OF p norm] a
  have good: "\<forall>(k, v) \<in> set a. k \<in> set (columns loaded) \<union> set main_roles \<and> no_semicolon v"
    by auto
  then have vals: "\<forall>(k, v) \<in> set a. no_semicolon v" by auto
  {
    assume "\<forall>c \<in> set (columns loaded). no_semicolon c"
    with good main_roles_clean have "\<forall>(k, v) \<in> set a. no_semicolon k \<and> no_semicolon v"
      by auto
    then have "\<forall>x \<in> set (map (\<lambda>(k, v). k @ ''='' @ v) a). no_semicolon x"
      by (auto simp: no_semicolon_def)
    from count_join_semicolon [OF this]
    have "count_list (info_field a) (CHR '';'') = length a - 1"
      by (simp add: info_field_def)
  }
  with vals show ?thesis by blast
qed

theorem info_values_without_semicolon_witness:
  "merged_annotations ex_ext ex_cfg ex_table_cell_semicolon = Inr [(''V1'', ex_annots_cell_semicolon)]
   \<and> map_of ex_annots_cell_semicolon ''Gene'' = Some ''BRCA1,BRCA2''
   \<and> no_semicolon ''BRCA1,BRCA2''
   \<and> count_list (info_field ex_annots_cell_semicolon) (CHR '';'') = 5"
proof -
  have ma: "merged_annotations ex_ext ex_cfg ex_table_cell_semicolon
              = Inr [(''V1'', ex_annots_cell_semicolon)]"
    by code_simp
  have norm: "\<forall>s. no_semicolon s \<longrightarrow> no_semicolon (remove_decimal_or_strip ex_ext s)"
    by (simp add: ex_ext_def)
  have a: "(''V1'', ex_annots_cell_semicolon) \<in> set [(''V1'', ex_annots_cell_semicolon)]"
    by simp
  have cols: "\<forall>c \<in> set (columns ex_table_cell_semicolon). no_semicolon c"
    by code_simp
  have len: "length ex_annots_cell_semicolon = 6"
    by (simp add: ex_annots_cell_semicolon_def)
  have g: "map_of ex_annots_cell_semicolon ''Gene'' = Some ''BRCA1,BRCA2''"
    by code_simp
  have v: "no_semicolon ''BRCA1,BRCA2''"
    by code_simp
  from info_values_without_semicolon [OF ma norm a] cols len ma g v show ?thesis
    by simp
qed

text \<open>
  Claim C10 as stated fails: the semicolon of a column name is a semicolon of the INFO field
  that separates no pairs. Six pairs, six semicolons:
\<close>

theorem semicolon_in_column_name_reaches_info:
  "merged_annotations ex_ext ex_cfg ex_table_col_semicolon = Inr [(''V1'', ex_annots_col_semicolon)]
   \<and> info_field ex_annots_col_semicolon
       = ''AnnotSV_ID=V1;SV_chrom=chr1;SV_start=100;SV_type=DEL;Annotation_mode=full;Gene;name=BRCA1''
   \<and> length ex_annots_col_semicolon = 6
   \<and> count_list (info_field ex_annots_col_semicolon) (CHR '';'') = 6"
  by code_simp

subsection \<open>The order of emission\<close>

lemma map_insort_key_cong:
  "f x = f' (g x) \<Longrightarrow> \<forall>p \<in> set ys. f p = f' (g p) \<Longrightarrow>
     map g (insort_key f x ys) = insort_key f' (g x) (map g ys)"
  by (induction ys) auto

lemma map_sort_key_cong:
  "\<forall>p \<in> set ps. f p = f' (g p) \<Longrightarrow> map g (sort_key f ps) = sort_key f' (map g ps)"
proof (induction ps)
  case Nil
  then show ?case by simp
next
  case (Cons p ps)
  then have IH: "map g (sort_key f ps) = sort_key f' (map g ps)" by simp
  have "map g (insort_key f p (sort_key f ps)) = insort_key f' (g p) (map g (sort_key f ps))"
    using Cons.prems by (intro map_insort_key_cong) auto
  with IH show ?case by simp
qed

lemma iloc_index_natsorted:
  "iloc df (index_natsorted (col_values df c))
     = Inr (df\<lparr>rows := sort_key (\<lambda>r. natsort_key (cell r c)) (rows df)\<rparr>)"
proof -
  let ?xs = "col_values df c"
  let ?ps = "enumerate 0 ?xs"
  let ?g = "\<lambda>p. rows df ! fst p"
  have len: "length ?xs = length (rows df)" by (simp add: col_values_def)
  have inb: "\<forall>i \<in> set (index_natsorted ?xs). i < length (rows df)"
    by (auto simp: index_natsorted_def in_set_enumerate_eq len)
  have key: "\<forall>p \<in> set ?ps. natsort_key (snd p) = natsort_key (cell (?g p) c)"
    by (auto simp: in_set_enumerate_eq col_values_def)
  have "map ?g (sort_key (\<lambda>p. natsort_key (snd p)) ?ps)
          = sort_key (\<lambda>r. natsort_key (cell r c)) (map ?g ?ps)"
    using key by (rule map_sort_key_cong)
  moreover have "map ?g ?ps = rows df"
  proof -
    have a: "map ?g ?ps = map (nth (rows df)) (map fst ?ps)"
      by (simp only: map_map comp_def)
    have b: "map fst ?ps = [0 ..< length (rows df)]"
      by (simp add: len)
    show ?thesis unfolding a b by (rule map_nth)
  qed
  ultimately have "map (\<lambda>i. rows df ! i) (index_natsorted ?xs)
                     = sort_key (\<lambda>r. natsort_key (cell r c)) (rows df)"
    by (simp add: index_natsorted_def comp_def)
  with inb show ?thesis by (simp add: iloc_def)
qed


lemma set_first_seen: "set (first_seen xs) = set xs"
  by (simp add: first_seen_def)

lemma distinct_first_seen: "distinct (first_seen xs)"
  by (simp add: first_seen_def)




subsection \<open>The text written\<close>

lemma join_Cons: "ys \<noteq> [] \<Longrightarrow> join sep (x # ys) = x @ sep @ join sep ys"
  by (cases ys) simp_all

lemma join_append:
  "xs \<noteq> [] \<Longrightarrow> ys \<noteq> [] \<Longrightarrow> join sep (xs @ ys) = join sep xs @ sep @ join sep ys"
proof (induction xs)
  case Nil
  then show ?case by simp
next
  case (Cons x xs)
  show ?case
  proof (cases "xs = []")
    case True
    with Cons.prems show ?thesis by (simp add: join_Cons)
  next
    case False
    with Cons have "join sep (xs @ ys) = join sep xs @ sep @ join sep ys" by simp
    moreover have "xs @ ys \<noteq> []" using False by simp
    ultimately show ?thesis using False by (simp add: join_Cons)
  qed
qed

lemma first_row_values_Inr:
  "first_row_values df cs = Inr vs \<Longrightarrow> \<exists>r rs. rows df = r # rs \<and> vs = map (cell r) cs"
  by (auto simp: first_row_values_def split: list.splits)

lemma main_vcf_cols_loop_length:
  "main_vcf_cols_loop cfg roles df cols = Inr (df', cols') \<Longrightarrow>
     length cols' = length cols + length roles"
proof (induction roles arbitrary: df cols)
  case Nil
  then show ?case by simp
next
  case (Cons role roles)
  from Cons.prems obtain d c where
    "main_vcf_cols_loop cfg roles d (cols @ [c]) = Inr (df', cols')"
    by (auto split: option.splits colspec.splits if_splits)
  from Cons.IH [OF this] show ?case by simp
qed

lemma get_main_vcf_cols_length:
  "get_main_vcf_cols cfg df = Inr (df', cols) \<Longrightarrow> length cols = 7"
  unfolding get_main_vcf_cols_def
  by (drule main_vcf_cols_loop_length) (simp add: main_roles_def)

lemma emit_group_line:
  assumes eg: "emit_group cfg ext main_vcf_cols sample_list info_dic g = (w, None)"
    and ne: "main_vcf_cols \<noteq> []"
  shows "\<exists>line. data_line cfg ext main_vcf_cols sample_list info_dic g = Inr line
            \<and> w = line @ newline"
proof -
  from eg obtain dfv where d: "derive_cols cfg ext (vcf_columns cfg) (snd g) = Inr dfv"
    by (auto simp: emit_group_def split: sum.splits)
  from eg d obtain vals where v: "first_row_values dfv main_vcf_cols = Inr vals"
    by (auto simp: emit_group_def split: sum.splits)
  from first_row_values_Inr [OF v] obtain r rs where
    r: "rows dfv = r # rs" and vals: "vals = map (cell r) main_vcf_cols" by blast
  from eg d v obtain a where a: "map_of info_dic (fst g) = Some a"
    by (auto simp: emit_group_def Let_def split: option.splits)
  from eg d v a obtain s where s: "sample_cols cfg sample_list dfv = Inr s"
    and w: "w = join tab vals @ tab @ info_field a @ tab @ s @ newline"
    by (auto simp: emit_group_def Let_def split: sum.splits)
  define ys where "ys = (if format_col cfg \<noteq> [] then map (cell r) (format_col cfg # sample_list)
             else [''GT'', default_genotype cfg])"
  have sj: "s = join tab ys"
  proof (cases "format_col cfg \<noteq> []")
    case True
    with s obtain vs where fv: "first_row_values dfv (format_col cfg # sample_list) = Inr vs"
      and "s = join tab vs"
      by (auto simp: sample_cols_def split: sum.splits)
    moreover from first_row_values_Inr [OF fv] r
    have "vs = map (cell r) (format_col cfg # sample_list)" by auto
    ultimately show ?thesis using True by (simp add: ys_def)
  next
    case False
    with s show ?thesis by (auto simp: sample_cols_def ys_def)
  qed
  have ysne: "ys \<noteq> []" by (simp add: ys_def)
  have vne: "vals \<noteq> []" using ne vals by simp
  have "join tab (vals @ [info_field a] @ ys) = join tab vals @ tab @ join tab ([info_field a] @ ys)"
    using vne by (intro join_append) simp_all
  also have "join tab ([info_field a] @ ys) = info_field a @ tab @ join tab ys"
    using join_Cons [OF ysne, of tab "info_field a"] by simp
  finally have "join tab (vals @ [info_field a] @ ys) = join tab vals @ tab @ info_field a @ tab @ s"
    using sj by simp
  moreover have "data_line cfg ext main_vcf_cols sample_list info_dic g
                   = Inr (join tab (vals @ [info_field a] @ ys))"
    by (simp add: data_line_def d r a vals ys_def)
  ultimately show ?thesis using w by simp
qed

lemma emit_loop_written:
  assumes "emit_loop cfg ext main_vcf_cols sample_list info_dic gs vcf = Written out"
    and ne: "main_vcf_cols \<noteq> []"
  shows "\<exists>lines. map (data_line cfg ext main_vcf_cols sample_list info_dic) gs = map Inr lines
            \<and> out = vcf @ concat (map (\<lambda>l. l @ newline) lines)"
  using assms(1)
proof (induction gs arbitrary: vcf)
  case Nil
  then show ?case by simp
next
  case (Cons g gs)
  obtain w eo where eg: "emit_group cfg ext main_vcf_cols sample_list info_dic g = (w, eo)"
    by (cases "emit_group cfg ext main_vcf_cols sample_list info_dic g")
  with Cons.prems have eo: "eo = None"
    and rest: "emit_loop cfg ext main_vcf_cols sample_list info_dic gs (vcf @ w) = Written out"
    by (auto split: option.splits)
  from emit_group_line [OF eg [unfolded eo] ne] obtain line where
    line: "data_line cfg ext main_vcf_cols sample_list info_dic g = Inr line" "w = line @ newline"
    by blast
  from Cons.IH [OF rest] obtain lines where
    lines: "map (data_line cfg ext main_vcf_cols sample_list info_dic) gs = map Inr lines"
    "out = (vcf @ w) @ concat (map (\<lambda>l. l @ newline) lines)"
    by blast
  have "map (data_line cfg ext main_vcf_cols sample_list info_dic) (g # gs) = map Inr (line # lines)"
    using line(1) lines(1) by simp
  moreover have "out = vcf @ concat (map (\<lambda>l. l @ newline) (line # lines))"
    using lines(2) line(2) by simp
  ultimately show ?case by blast
qed

lemma emission_groups_Inr:
  assumes "emission_groups cfg df = Inr groups"
  shows "\<exists>c. map_of (vcf_columns cfg) ''#CHROM'' = Some (Name c) \<and> c \<in> set (columns df) \<and>
           annotsv_id_col cfg \<in> set (columns df) \<and>
           groups = map (\<lambda>k. (k, group_of (annotsv_id_col cfg) k
                                   (df\<lparr>rows := sort_key (\<lambda>r. natsort_key (cell r c)) (rows df)\<rparr>)))
                      (first_seen (map (\<lambda>r. cell r (annotsv_id_col cfg))
                                      (sort_key (\<lambda>r. natsort_key (cell r c)) (rows df))))"
proof -
  from assms obtain sorted_df where
    ns: "natsorted_frame cfg df = Inr sorted_df"
    and gb: "groupby_unsorted (annotsv_id_col cfg) sorted_df = Inr groups"
    by (auto simp: emission_groups_def split: sum.splits)
  from ns obtain c where c: "map_of (vcf_columns cfg) ''#CHROM'' = Some (Name c)"
    and cin: "c \<in> set (columns df)"
    and il: "iloc df (index_natsorted (col_values df c)) = Inr sorted_df"
    by (auto simp: natsorted_frame_def split: option.splits colspec.splits if_splits)
  from il have sd: "sorted_df = df\<lparr>rows := sort_key (\<lambda>r. natsort_key (cell r c)) (rows df)\<rparr>"
    by (simp add: iloc_index_natsorted)
  from gb have idin: "annotsv_id_col cfg \<in> set (columns sorted_df)"
    and g: "groups = map (\<lambda>k. (k, group_of (annotsv_id_col cfg) k sorted_df))
                        (first_seen (col_values sorted_df (annotsv_id_col cfg)))"
    by (auto simp: groupby_unsorted_def split: if_splits)
  from idin have "annotsv_id_col cfg \<in> set (columns df)" by (simp add: sd)
  moreover from g have
    "groups = map (\<lambda>k. (k, group_of (annotsv_id_col cfg) k
                                   (df\<lparr>rows := sort_key (\<lambda>r. natsort_key (cell r c)) (rows df)\<rparr>)))
                      (first_seen (map (\<lambda>r. cell r (annotsv_id_col cfg))
                                      (sort_key (\<lambda>r. natsort_key (cell r c)) (rows df))))"
    by (simp add: sd col_values_def)
  ultimately show ?thesis using c cin by blast
qed

lemma convert_written:
  assumes "convert ext cfg tsv loaded = Written out"
  shows "\<exists>sample_list input_df main_vcf_cols info_dic header groups lines.
           prepare ext cfg loaded = Inr (sample_list, input_df, main_vcf_cols, info_dic) \<and>
           create_vcf_header ext tsv cfg sample_list = Inr header \<and>
           emission_groups cfg input_df = Inr groups \<and>
           length main_vcf_cols = 7 \<and>
           map (data_line cfg ext main_vcf_cols sample_list info_dic) groups = map Inr lines \<and>
           out = concat (map (\<lambda>l. l @ newline) header) @ concat (map (\<lambda>l. l @ newline) lines)"
proof -
  from assms obtain sample_list input_df main_vcf_cols info_dic where
    p: "prepare ext cfg loaded = Inr (sample_list, input_df, main_vcf_cols, info_dic)"
    by (auto simp: convert_def split: sum.splits)
  from assms p obtain header where h: "create_vcf_header ext tsv cfg sample_list = Inr header"
    by (auto simp: convert_def split: sum.splits)
  from assms p h obtain groups where g: "emission_groups cfg input_df = Inr groups"
    by (auto simp: convert_def Let_def split: sum.splits)
  from assms p h g have el:
    "emit_loop cfg ext main_vcf_cols sample_list info_dic groups
       (concat (map (\<lambda>l. l @ newline) header)) = Written out"
    by (simp add: convert_def Let_def)
  from p have "get_main_vcf_cols cfg loaded = Inr (input_df, main_vcf_cols)"
    by (auto simp: prepare_def split: sum.splits)
  then have len: "length main_vcf_cols = 7" by (rule get_main_vcf_cols_length)
  then have ne: "main_vcf_cols \<noteq> []" by auto
  from emit_loop_written [OF el ne] obtain lines where
    "map (data_line cfg ext main_vcf_cols sample_list info_dic) groups = map Inr lines"
    "out = concat (map (\<lambda>l. l @ newline) header) @ concat (map (\<lambda>l. l @ newline) lines)"
    by blast
  with p h g len show ?thesis by blast
qed

lemma prepare_input_table:
  "prepare ext cfg loaded = Inr (sample_list, input_df, main_vcf_cols, info_dic) \<Longrightarrow>
     input_table cfg loaded = input_df"
  by (auto simp: prepare_def input_table_def split: sum.splits)



lemma emission_groups_ids:
  assumes "emission_groups cfg df = Inr groups"
  shows "distinct (map fst groups) \<and>
         set (map fst groups) = set (col_values df (annotsv_id_col cfg))"
proof -
  from emission_groups_Inr [OF assms] obtain c where
    "groups = map (\<lambda>k. (k, group_of (annotsv_id_col cfg) k
                                   (df\<lparr>rows := sort_key (\<lambda>r. natsort_key (cell r c)) (rows df)\<rparr>)))
                      (first_seen (map (\<lambda>r. cell r (annotsv_id_col cfg))
                                      (sort_key (\<lambda>r. natsort_key (cell r c)) (rows df))))"
    by blast
  then have "map fst groups = first_seen (map (\<lambda>r. cell r (annotsv_id_col cfg))
                                      (sort_key (\<lambda>r. natsort_key (cell r c)) (rows df)))"
    by (simp add: comp_def)
  then show ?thesis
    by (simp add: distinct_first_seen set_first_seen col_values_def)
qed

text \<open>
  Claim C5, as the code has it. When the conversion writes its output, the text after the
  header is one line for every variant identifier of the table, and each line is, joined by
  tabs, the cells of the seven main columns (\<open>_get_main_vcf_cols\<close> returns seven names) in
  the first row of the group, the INFO field made of the \<open>key=value\<close> pairs of the group's
  merged annotation joined by \<open>;\<close>, and then the cells of the FORMAT column and of the
  sample columns in that row when the FORMAT role is not empty, or \<open>GT\<close> and the default
  genotype otherwise (\<open>data_line\<close>).
\<close>

theorem one_data_line_per_group:
  assumes w: "convert ext cfg tsv loaded = Written out"
  shows "\<exists>sample_list main_vcf_cols info_dic header groups lines.
           prepare ext cfg loaded
             = Inr (sample_list, input_table cfg loaded, main_vcf_cols, info_dic) \<and>
           create_vcf_header ext tsv cfg sample_list = Inr header \<and>
           emission_groups cfg (input_table cfg loaded) = Inr groups \<and>
           distinct (map fst groups) \<and>
           set (map fst groups) = set (col_values (input_table cfg loaded) (annotsv_id_col cfg)) \<and>
           length main_vcf_cols = 7 \<and>
           map (data_line cfg ext main_vcf_cols sample_list info_dic) groups = map Inr lines \<and>
           out = concat (map (\<lambda>l. l @ newline) header) @ concat (map (\<lambda>l. l @ newline) lines)"
proof -
  from convert_written [OF w] obtain sample_list input_df main_vcf_cols info_dic header groups lines
    where p: "prepare ext cfg loaded = Inr (sample_list, input_df, main_vcf_cols, info_dic)"
      and h: "create_vcf_header ext tsv cfg sample_list = Inr header"
      and g: "emission_groups cfg input_df = Inr groups"
      and len: "length main_vcf_cols = 7"
      and dl: "map (data_line cfg ext main_vcf_cols sample_list info_dic) groups = map Inr lines"
      and out: "out = concat (map (\<lambda>l. l @ newline) header) @ concat (map (\<lambda>l. l @ newline) lines)"
    by blast
  note it = prepare_input_table [OF p]
  from emission_groups_ids [OF g] it have
    "distinct (map fst groups)"
    "set (map fst groups) = set (col_values (input_table cfg loaded) (annotsv_id_col cfg))"
    by simp_all
  with p h g len dl out it have
    "prepare ext cfg loaded
             = Inr (sample_list, input_table cfg loaded, main_vcf_cols, info_dic) \<and>
           create_vcf_header ext tsv cfg sample_list = Inr header \<and>
           emission_groups cfg (input_table cfg loaded) = Inr groups \<and>
           distinct (map fst groups) \<and>
           set (map fst groups) = set (col_values (input_table cfg loaded) (annotsv_id_col cfg)) \<and>
           length main_vcf_cols = 7 \<and>
           map (data_line cfg ext main_vcf_cols sample_list info_dic) groups = map Inr lines \<and>
           out = concat (map (\<lambda>l. l @ newline) header) @ concat (map (\<lambda>l. l @ newline) lines)"
    by simp
  then show ?thesis by blast
qed

theorem one_data_line_per_group_witness:
  "convert ex_ext ex_cfg ''in.tsv'' ex_table = Written ex_output \<and>
   (\<exists>sample_list main_vcf_cols info_dic header groups lines.
       prepare ex_ext ex_cfg ex_table
         = Inr (sample_list, input_table ex_cfg ex_table, main_vcf_cols, info_dic) \<and>
       create_vcf_header ex_ext ''in.tsv'' ex_cfg sample_list = Inr header \<and>
       emission_groups ex_cfg (input_table ex_cfg ex_table) = Inr groups \<and>
       distinct (map fst groups) \<and>
       set (map fst groups) = set (col_values (input_table ex_cfg ex_table) (annotsv_id_col ex_cfg)) \<and>
       length main_vcf_cols = 7 \<and>
       map (data_line ex_cfg ex_ext main_vcf_cols sample_list info_dic) groups = map Inr lines \<and>
       ex_output = concat (map (\<lambda>l. l @ newline) header) @ concat (map (\<lambda>l. l @ newline) lines))"
proof -
  have w: "convert ex_ext ex_cfg ''in.tsv'' ex_table = Written ex_output" by code_simp
  from one_data_line_per_group [OF w] w show ?thesis by simp
qed

text \<open>
  Claim C5 as stated speaks of nine main columns. The data line of the variant \<open>V2\<close> of the
  example has seven cells before its INFO field, ten fields in all:
\<close>

theorem data_line_has_seven_main_columns:
  "convert ex_ext ex_cfg ''in.tsv'' ex_table = Written ex_output \<and>
   split_on (CHR 0x09) (hd (drop 2 (split_on (CHR 0x0A) ex_output)))
     = [''chr2'', ''500'', ''.'', ''.'', ''.'', ''.'', ''PASS'',
        ''AnnotSV_ID=V2;SV_chrom=chr2;SV_start=500;SV_type=DUP;Annotation_mode=full;Gene=TP53'',
        ''GT'', ''0/1'']"
  by code_simp

subsection \<open>The header\<close>




lemma create_vcf_header_method_info_lines:
  assumes "create_vcf_header_method date abspath cfg sample_list input_df info_keys = Inr header"
    and "k \<in> set info_keys"
  shows "typed_line cfg ''INFO'' k \<in> set header"
  using assms
  by (auto simp: create_vcf_header_method_def Let_def split: sum.splits if_splits)


subsection \<open>When the merge returns\<close>

lemma keys_dict_set: "fst ` set (dict_set k v d) = insert k (fst ` set d)"
proof (induction d)
  case Nil
  then show ?case by simp
next
  case (Cons p d)
  obtain k' v' where p: "p = (k', v')" by (cases p)
  show ?case
  proof (cases "k = k'")
    case True
    then show ?thesis by (simp add: p)
  next
    case False
    with Cons show ?thesis by (simp add: p insert_commute)
  qed
qed

lemma keys_seed_dots: "fst ` set (seed_dots anns a) = fst ` set a \<union> set anns"
proof (induction anns arbitrary: a)
  case Nil
  then show ?case by simp
next
  case (Cons ann anns)
  have "fst ` set (seed_dots anns (dict_set ann ''.'' a))
          = fst ` set (dict_set ann ''.'' a) \<union> set anns"
    by (rule Cons.IH)
  then show ?case by (simp add: keys_dict_set)
qed

lemma collect_types_total:
  "\<forall>k \<in> set ks. k = ''full'' \<or> k = ''split'' \<Longrightarrow>
     \<exists>dfs'. collect_types (map (\<lambda>k. (k, g k)) ks) dfs = Inr dfs'"
  by (induction ks arbitrary: dfs) auto

lemma seed_full_total:
  assumes "rows full = [r0]" and "set anns \<subseteq> set (columns full)"
  shows "\<exists>a'. seed_full norm full (fst r0) anns a = Inr a'
            \<and> fst ` set a' = fst ` set a \<union> set anns"
  using assms(2)
proof (induction anns arbitrary: a)
  case Nil
  then show ?case by simp
next
  case (Cons ann anns)
  from Cons.prems assms(1) have l: "loc full (fst r0) ann = Inr (cell r0 ann)"
    by (simp add: loc_def)
  from Cons.prems have "set anns \<subseteq> set (columns full)" by simp
  from Cons.IH [OF this, of "dict_set ann (norm (cell r0 ann)) a"] obtain a' where
    a': "seed_full norm full (fst r0) anns (dict_set ann (norm (cell r0 ann)) a) = Inr a'"
    "fst ` set a' = fst ` set (dict_set ann (norm (cell r0 ann)) a) \<union> set anns"
    by blast
  from a'(1) l have "seed_full norm full (fst r0) (ann # anns) a = Inr a'" by simp
  moreover from a'(2) have "fst ` set a' = fst ` set a \<union> set (ann # anns)"
    by (simp add: keys_dict_set)
  ultimately show ?case by blast
qed

lemma merge_split_total:
  "set anns \<subseteq> fst ` set a \<Longrightarrow> \<exists>a'. merge_split cfg norm split anns a = Inr a'"
proof (induction anns arbitrary: a)
  case Nil
  then show ?case by simp
next
  case (Cons ann anns)
  from Cons.prems have rest: "\<And>v. set anns \<subseteq> fst ` set (dict_set ann v a)"
    by (simp add: keys_dict_set subset_insertI2)
  show ?case
  proof (cases "ann = annotation_mode_col cfg")
    case True
    with Cons.IH [OF rest] show ?thesis by simp
  next
    case False
    from Cons.prems have "ann \<in> fst ` set a" by simp
    then obtain v where "map_of a ann = Some v"
      by (metis map_of_eq_None_iff not_Some_eq)
    with False Cons.IH [OF rest] show ?thesis by simp
  qed
qed

lemma merge_returns_when_full_row_first:
  assumes m: "mode cfg = ''full&split''"
    and cin: "annotation_mode_col cfg \<in> set (columns df)"
    and nb: "annotation_mode_col cfg \<notin> set base_vcf_cols"
    and tags: "\<forall>r \<in> set (rows df). cell r (annotation_mode_col cfg) = ''full''
                                    \<or> cell r (annotation_mode_col cfg) = ''split''"
    and first: "rows df = r0 # rs"
    and F: "tagged cfg ''full'' df = [] \<or> tagged cfg ''full'' df = [r0]"
  shows "\<exists>w a. merge_full_and_split cfg norm df = Inr (w, a)"
proof -
  let ?c = "annotation_mode_col cfg"
  let ?df = "select_cols (\<lambda>c. c \<notin> set base_vcf_cols) df"
  let ?keys = "sort (remdups (col_values ?df ?c))"
  let ?groups = "map (\<lambda>k. (k, group_of ?c k ?df)) ?keys"
  have g: "groupby ?c ?df = Inr ?groups"
    using cin nb by (simp add: groupby_def select_cols_def)
  have "\<forall>k \<in> set ?keys. k = ''full'' \<or> k = ''split''"
    using tags by (auto simp: col_values_def select_cols_def)
  from collect_types_total [OF this, of "\<lambda>k. group_of ?c k ?df" Map.empty]
  obtain dfs where ct: "collect_types ?groups Map.empty = Inr dfs" by blast
  from collect_types_map [OF ct]
  have dfs: "\<And>k. dfs k = (if k \<in> set (col_values ?df ?c) then Some (group_of ?c k ?df) else None)"
    by simp
  have present: "\<And>k. k \<in> set (col_values ?df ?c) \<longleftrightarrow> tagged cfg k df \<noteq> []"
    unfolding group_present by (simp add: tagged_def select_cols_def)
  have gcols: "\<And>k. columns (group_of ?c k ?df) = columns ?df"
    by (simp add: group_of_def)
  have grows: "\<And>k. rows (group_of ?c k ?df) = tagged cfg k df"
    by (simp add: group_of_def select_cols_def tagged_def)
  have rows0: "rows ?df = r0 # rs" using first by (simp add: select_cols_def)
  have eq: "merge_full_and_split cfg norm df =
     (case dfs ''full'' of
                  None \<Rightarrow>
                    (case dfs ''split'' of
                       None \<Rightarrow> Inr ([warn_no_mode], [])
                     | Some split \<Rightarrow>
                         (case merge_split cfg norm split (columns split)
                                 (seed_dots (columns split) []) of
                            Inl e \<Rightarrow> Inl e
                          | Inr a \<Rightarrow> Inr ([], a)))
                | Some full \<Rightarrow>
                    if length (rows full) > 1 then Inl (ValueError msg_one_full)
                    else
                      (case rows ?df of
                         [] \<Rightarrow> Inl IndexError
                       | r0 # _ \<Rightarrow>
                          (case seed_full norm full (fst r0) (columns full) [] of
                             Inl e \<Rightarrow> Inl e
                           | Inr a0 \<Rightarrow>
                              (case dfs ''split'' of
                                 None \<Rightarrow> Inr ([], a0)
                               | Some split \<Rightarrow>
                                   (case merge_split cfg norm split (columns split) a0 of
                                      Inl e \<Rightarrow> Inl e
                                    | Inr a \<Rightarrow> Inr ([], a))))))"
    by (simp add: merge_full_and_split_def m g ct)
  show ?thesis
  proof (cases "tagged cfg ''full'' df = []")
    case True
    then have nf: "dfs ''full'' = None" by (simp add: dfs present)
    show ?thesis
    proof (cases "dfs ''split''")
      case None
      with nf show ?thesis unfolding eq by simp
    next
      case (Some split)
      then have sp: "split = group_of ?c ''split'' ?df" by (simp add: dfs split: if_splits)
      have "set (columns split) \<subseteq> fst ` set (seed_dots (columns split) [])"
        by (simp add: keys_seed_dots)
      from merge_split_total [OF this] obtain a where
        "merge_split cfg norm split (columns split) (seed_dots (columns split) []) = Inr a"
        by blast
      with nf Some show ?thesis unfolding eq by simp
    qed
  next
    case False
    with F have Fr: "tagged cfg ''full'' df = [r0]" by simp
    define full where "full = group_of ?c ''full'' ?df"
    from False have df: "dfs ''full'' = Some full" by (simp add: dfs present full_def)
    have rf: "rows full = [r0]" using Fr by (simp add: full_def grows)
    from seed_full_total [OF rf subset_refl, of norm "[]"] obtain a0 where
      a0: "seed_full norm full (fst r0) (columns full) [] = Inr a0"
      and k0: "fst ` set a0 = set (columns full)"
      by auto
    have cf: "columns full = columns ?df" by (simp add: full_def gcols)
    show ?thesis
    proof (cases "dfs ''split''")
      case None
      with df rf rows0 a0 show ?thesis unfolding eq by simp
    next
      case (Some split)
      then have "split = group_of ?c ''split'' ?df" by (simp add: dfs split: if_splits)
      then have "columns split = columns ?df" by (simp add: gcols)
      with k0 cf have "set (columns split) \<subseteq> fst ` set a0" by simp
      from merge_split_total [OF this] obtain a where
        "merge_split cfg norm split (columns split) a0 = Inr a" by blast
      with df rf rows0 a0 Some show ?thesis unfolding eq by simp
    qed
  qed
qed

text \<open>A group without a full row: every value starts with the placeholder.\<close>

lemma merge_without_full_row:
  "merge_full_and_split ex_cfg (\<lambda>s. s) ex_group_no_full =
     Inr ([], [(''AnnotSV_ID'', ''.|V1|V1''), (''Annotation_mode'', ''full&split''),
               (''Gene'', ''.|A|B'')])"
  by code_simp

text \<open>
  Claim C1 asks for the merged value of every group that has a split row. Where the full row
  is the first row of the group, or the group has none, the merge returns
  (\<open>merge_returns_when_full_row_first\<close>) with the values of
  \<open>merged_value_full_then_splits\<close>. Line 145 reads the full row as
  \<open>dfs["full"].loc[df.index[0], ann]\<close>, with the label of the first row of the whole
  group: a group with one full row and one split row, the split row listed first, ends the
  merge with the \<open>KeyError\<close> of that lookup and gets no merged value, and the conversion
  of the table with these two rows ends before the output is opened.
\<close>

theorem full_row_after_split_raises:
  "tagged ex_cfg ''full'' ex_group_split_first \<noteq> []
   \<and> tagged ex_cfg ''split'' ex_group_split_first \<noteq> []
   \<and> length (tagged ex_cfg ''full'' ex_group_split_first) = 1
   \<and> merge_full_and_split ex_cfg (\<lambda>s. s) ex_group_split_first = Inl (KeyError ''label'')
   \<and> convert ex_ext ex_cfg ''in.tsv'' ex_table_split_first
       = Failed_before_open (KeyError ''label'')"
  by code_simp

end
